theory Spec2Isabelle
  imports Main "HOL-Library.Word"
begin

section \<open>Asynchronous task lifecycle of the report server\<close>

text \<open>
  The development embeds the task store, the stage pipeline, the submission and status
  endpoints of \<^verbatim>\<open>src/server.js\<close>, their simplified counterparts of
  \<^verbatim>\<open>src/api/server.js\<close>, and the client poller \<^verbatim>\<open>pollTaskStatus\<close>.

  Conventions. Times are epoch milliseconds (\<^verbatim>\<open>Date.now()\<close>); the ISO string kept in
  \<^verbatim>\<open>created_at\<close> is read back with \<^verbatim>\<open>new Date(..).getTime()\<close>, so the field holds the
  millisecond value itself. Text typed by the user is a list of UTF-16 code units, as a
  JavaScript string is. Text written in the program (step labels, messages; Chinese in the
  source) is rendered as ASCII strings. The identifier drawn by \<^verbatim>\<open>uuidv4()\<close> and the
  clock are arguments of the functions that use them.
\<close>

subsection \<open>Task store\<close>

datatype TaskStatus = PENDING | PROCESSING | COMPLETED | FAILED

text \<open>A thrown value: \<^verbatim>\<open>new Error(message)\<close>.\<close>

datatype js_error = Error (message: string)

text \<open>
  The value of \<^verbatim>\<open>error.message || error\<close>: the message when it is a non-empty string,
  the error object itself otherwise.
\<close>

datatype error_value = ErrorText string | ErrorObject js_error

record ('i, 'r) task =
  task_id :: string
  status :: TaskStatus
  progress :: int
  current_step :: string
  created_at :: int
  updated_at :: int
  input_data :: 'i
  result :: "'r option"
  error :: "error_value option"
  processing_time :: int

type_synonym ('i, 'r) taskStorage = "string \<rightharpoonup> ('i, 'r) task"

definition createTask ::
  "string \<Rightarrow> int \<Rightarrow> 'i \<Rightarrow> ('i, 'r) taskStorage \<Rightarrow> ('i, 'r) taskStorage" where
  "createTask taskId now initialData taskStorage =
     taskStorage(taskId \<mapsto>
       \<lparr>task_id = taskId, status = PENDING, progress = 0, current_step = '''',
        created_at = now, updated_at = now, input_data = initialData,
        result = None, error = None, processing_time = 0\<rparr>)"

text \<open>
  \<^verbatim>\<open>updateTaskStatus\<close> returns \<^verbatim>\<open>false\<close> and leaves the store alone when the task is
  unknown. The last argument is the \<^verbatim>\<open>Object.assign(task, data)\<close> merge; every caller in
  the repository leaves it at its default \<^verbatim>\<open>{}\<close>, the identity.
\<close>

definition updateTaskStatus ::
  "string \<Rightarrow> TaskStatus \<Rightarrow> string \<Rightarrow> int \<Rightarrow> (('i, 'r) task \<Rightarrow> ('i, 'r) task) \<Rightarrow> int \<Rightarrow>
   ('i, 'r) taskStorage \<Rightarrow> bool \<times> ('i, 'r) taskStorage" where
  "updateTaskStatus taskId st currentStep prog data now taskStorage =
     (case taskStorage taskId of
        None \<Rightarrow> (False, taskStorage)
      | Some t \<Rightarrow>
          (True, taskStorage(taskId \<mapsto>
             data (t\<lparr>status := st, current_step := currentStep, progress := prog,
                     updated_at := now\<rparr>))))"

definition getTask :: "string \<Rightarrow> ('i, 'r) taskStorage \<Rightarrow> ('i, 'r) task option" where
  "getTask taskId taskStorage = taskStorage taskId"

definition setTaskResult ::
  "string \<Rightarrow> 'r \<Rightarrow> int \<Rightarrow> ('i, 'r) taskStorage \<Rightarrow> ('i, 'r) taskStorage" where
  "setTaskResult taskId res now taskStorage =
     (case taskStorage taskId of
        None \<Rightarrow> taskStorage
      | Some t \<Rightarrow>
          taskStorage(taskId \<mapsto>
            t\<lparr>result := Some res, status := COMPLETED, progress := 100,
              processing_time := now - created_at t, updated_at := now\<rparr>))"

definition error_or_message :: "js_error \<Rightarrow> error_value" where
  "error_or_message e = (if message e \<noteq> [] then ErrorText (message e) else ErrorObject e)"

definition setTaskError ::
  "string \<Rightarrow> js_error \<Rightarrow> int \<Rightarrow> ('i, 'r) taskStorage \<Rightarrow> ('i, 'r) taskStorage" where
  "setTaskError taskId e now taskStorage =
     (case taskStorage taskId of
        None \<Rightarrow> taskStorage
      | Some t \<Rightarrow>
          taskStorage(taskId \<mapsto>
            t\<lparr>error := Some (error_or_message e), status := FAILED,
              processing_time := now - created_at t, updated_at := now\<rparr>))"

text \<open>The sweep run by \<^verbatim>\<open>setInterval(cleanupOldTasks, 1800000)\<close>, at time \<open>now\<close>.\<close>

definition cleanupOldTasks :: "int \<Rightarrow> ('i, 'r) taskStorage \<Rightarrow> ('i, 'r) taskStorage" where
  "cleanupOldTasks now taskStorage =
     (let oneHourAgo = now - 3600000
      in (\<lambda>taskId.
            case taskStorage taskId of
              None \<Rightarrow> None
            | Some t \<Rightarrow> if created_at t < oneHourAgo then None else Some t))"

subsection \<open>JavaScript helpers\<close>

type_synonym jsstring = "16 word list"

definition lit :: "string \<Rightarrow> jsstring" where
  "lit s = map of_char s"

text \<open>
  The code units \<^verbatim>\<open>String.prototype.trim\<close> strips: ECMAScript WhiteSpace and
  LineTerminator.
\<close>

definition isWhiteSpace :: "16 word \<Rightarrow> bool" where
  "isWhiteSpace c \<longleftrightarrow>
     c \<in> set [0x9, 0xA, 0xB, 0xC, 0xD, 0x20, 0xA0, 0x1680,
               0x2000, 0x2001, 0x2002, 0x2003, 0x2004, 0x2005, 0x2006, 0x2007, 0x2008,
               0x2009, 0x200A, 0x2028, 0x2029, 0x202F, 0x205F, 0x3000, 0xFEFF]"

definition trim :: "jsstring \<Rightarrow> jsstring" where
  "trim s = rev (dropWhile isWhiteSpace (rev (dropWhile isWhiteSpace s)))"

text \<open>\<^verbatim>\<open>x || d\<close> on a possibly missing string: a missing or empty string gives \<open>d\<close>.\<close>

definition or_else :: "jsstring option \<Rightarrow> jsstring \<Rightarrow> jsstring" where
  "or_else x d = (case x of None \<Rightarrow> d | Some v \<Rightarrow> if v = [] then d else v)"

text \<open>
  \<^verbatim>\<open>Math.round((i / n) * 20)\<close> for \<open>0 < n\<close>: the nearest integer to \<open>20 i / n\<close>, halves
  rounded up. The route accepts at most 10 files (\<^verbatim>\<open>upload.array('images', 10)\<close>), so
  \<open>n \<le> 10\<close>. There \<open>20 i / n\<close> is a half-integer only for \<open>n = 8\<close>, where \<open>i / 8\<close>
  and its product by 20 are exact in double arithmetic; every other quotient is at least
  \<open>1/20\<close> away from a half-integer, far more than the rounding error of the two double
  operations. So the integer formula is what the double computation returns.
\<close>

definition round_times20 :: "nat \<Rightarrow> nat \<Rightarrow> int" where
  "round_times20 i n = int ((40 * i + n) div (2 * n))"

fun show_nat :: "nat \<Rightarrow> string" where
  "show_nat n =
     (if n < 10 then [char_of (48 + n)]
      else show_nat (n div 10) @ [char_of (48 + n mod 10)])"

declare show_nat.simps [simp del]

text \<open>The settled value of an awaited promise.\<close>

datatype 'a awaited = Rejected js_error | Resolved 'a

subsection \<open>Data of the stage pipeline\<close>

record userInfo =
  nickname :: jsstring
  profession :: jsstring
  age :: jsstring
  bioOrChatHistory :: jsstring

text \<open>An uploaded file as multer describes it.\<close>

record uploaded_file =
  path :: string
  filename :: string
  size_bytes :: int

record report =
  risk_level :: string
  key_findings :: "(string \<times> string) list"
  final_suggestion :: string
  confidence_level :: string
  report_note :: "string option"

definition generateFallbackReport :: report where
  "generateFallbackReport =
     \<lparr>risk_level = ''medium risk'',
      key_findings =
        [(''system_status'', ''deep analysis system unavailable, fallback logic used''),
         (''basic_analysis'', ''basic information assessed, caution advised'')],
      final_suggestion = ''deep analysis unavailable: observe behaviour, consult an expert'',
      confidence_level = ''low'',
      report_note = Some ''fallback analysis, retry later for a more accurate assessment''\<rparr>"

text \<open>What \<^verbatim>\<open>classifyImageWithGPT4o\<close> resolves to.\<close>

record classification_result =
  cls_filename :: string
  cls_classification :: string
  cls_success :: bool
  cls_error :: string

text \<open>
  An entry of \<^verbatim>\<open>imageAnalyses\<close>, with the fields that the pipeline reads, writes or copies
  into the response; a field the object lacks is \<open>None\<close>.
\<close>

record analysis =
  an_filename :: "string option"
  an_classification :: "string option"
  an_analysis_type :: "string option"
  an_extracted_conversations :: "string option"
  an_communication_patterns :: "string option"
  an_emotional_indicators :: "string option"
  an_scene_description :: "string option"
  an_person_analysis :: "string option"
  an_lifestyle_indicators :: "string option"
  an_notable_details :: "string option"
  an_safety_assessment :: "string option"
  an_red_flags :: "string option"
  an_overall_assessment :: "string option"
  an_confidence :: "string option"
  an_success :: bool
  an_error :: "string option"

record query_optimization =
  qo_success :: bool
  qo_error :: "string option"
  qo_original_query :: jsstring
  qo_enhanced_query :: jsstring
  qo_token_usage :: nat

text \<open>
  The retrieval result kept in \<^verbatim>\<open>ragKnowledge\<close>: the \<^verbatim>\<open>data\<close> object of the retrieval
  service (opaque here), or a report object.
\<close>

datatype knowledge = RagData string | RagReport report

text \<open>
  What can happen to the process that \<^verbatim>\<open>callRAGSystem\<close> spawns: the synchronous part
  throws, the process emits \<^verbatim>\<open>error\<close>, the 300000 ms timer fires first, or the process
  closes with an exit code and its collected standard output.
\<close>

datatype rag_outcome =
  SpawnThrows js_error
| ProcessError js_error
| TimedOut
| Closed int string

text \<open>The parsed output \<^verbatim>\<open>{success, data, fallback_report}\<close> of the retrieval service.\<close>

record rag_reply =
  rag_success :: bool
  rag_data :: knowledge
  rag_fallback_report :: "report option"

text \<open>
  The surroundings of one run of the pipeline: the file system, the settled value of each
  awaited collaborator call (the image calls by loop index), and two clock readings.
  \<open>parse_rag_output\<close> is \<^verbatim>\<open>JSON.parse\<close> followed by the logging of the same
  \<^verbatim>\<open>try\<close> block: \<open>None\<close> when any of it throws.
\<close>

record env =
  existsSync :: "string \<Rightarrow> bool"
  classifyImageWithGPT4o :: "nat \<Rightarrow> uploaded_file \<Rightarrow> classification_result awaited"
  analyzeChatImageWithGPT4o :: "nat \<Rightarrow> uploaded_file \<Rightarrow> analysis awaited"
  analyzePhotoImageWithGPT4o :: "nat \<Rightarrow> uploaded_file \<Rightarrow> analysis awaited"
  analyzeImageWithGPT4o :: "nat \<Rightarrow> uploaded_file \<Rightarrow> analysis awaited"
  enhanceQueryWithAI :: "userInfo \<Rightarrow> analysis list \<Rightarrow> query_optimization awaited"
  ragSystemReady :: bool
  rag_process :: "jsstring \<Rightarrow> rag_outcome"
  parse_rag_output :: "string \<Rightarrow> rag_reply option"
  generateFinalReportWithGPT4o ::
    "userInfo \<Rightarrow> analysis list \<Rightarrow> knowledge \<Rightarrow> report awaited"
  startTime :: int
  endTime :: int

record analysis_stats =
  images_processed :: nat
  images_successful :: nat
  query_optimization_success :: bool
  query_enhancement_token_usage :: nat
  rag_status :: string
  final_analysis_status :: string
  total_processing_time :: int

text \<open>The result object handed to \<^verbatim>\<open>setTaskResult\<close> (the constant \<^verbatim>\<open>system_info\<close> texts left out).\<close>

record response =
  rsp_success :: bool
  rsp_timestamp :: int
  rsp_processing_time :: int
  rsp_user_info :: userInfo
  rsp_image_analyses :: "analysis list"
  rsp_query_optimization :: query_optimization
  rsp_rag_knowledge :: knowledge
  rsp_final_report :: report
  rsp_task_id :: string
  rsp_analysis_stats :: analysis_stats

text \<open>The snapshot stored as \<^verbatim>\<open>input_data\<close> by the submission endpoint.\<close>

record snapshot =
  snap_userInfo :: userInfo
  snap_filesCount :: nat
  snap_submittedAt :: int

subsection \<open>Stage pipeline of \<^verbatim>\<open>src/server.js\<close>\<close>

text \<open>
  A run of \<^verbatim>\<open>processAnalysisTask\<close> touches the store only through \<^verbatim>\<open>updateTaskStatus\<close>,
  \<^verbatim>\<open>setTaskResult\<close> and \<^verbatim>\<open>setTaskError\<close>, with awaits in between. The run is embedded as
  the list of these store calls, in program order; other handlers of the event loop may
  run between any two of them.
\<close>

datatype 'r store_op = Update TaskStatus string int | SetResult 'r | SetError js_error

fun apply_op ::
  "int \<Rightarrow> string \<Rightarrow> 'r store_op \<Rightarrow> ('i, 'r) taskStorage \<Rightarrow> ('i, 'r) taskStorage" where
  "apply_op now taskId (Update st currentStep prog) taskStorage =
     snd (updateTaskStatus taskId st currentStep prog (\<lambda>t. t) now taskStorage)"
| "apply_op now taskId (SetResult res) taskStorage = setTaskResult taskId res now taskStorage"
| "apply_op now taskId (SetError e) taskStorage = setTaskError taskId e now taskStorage"

text \<open>The object pushed by the \<^verbatim>\<open>catch (imageError)\<close> of the image loop.\<close>

definition error_marker :: "uploaded_file \<Rightarrow> js_error \<Rightarrow> analysis" where
  "error_marker file imageError =
     \<lparr>an_filename = Some (filename file),
      an_classification = Some ''error'',
      an_analysis_type = Some ''error'',
      an_extracted_conversations = Some (''image analysis failed: '' @ message imageError),
      an_communication_patterns = None,
      an_emotional_indicators = None,
      an_scene_description = Some ''analysis unavailable'',
      an_person_analysis = None,
      an_lifestyle_indicators = None,
      an_notable_details = None,
      an_safety_assessment = None,
      an_red_flags = None,
      an_overall_assessment = None,
      an_confidence = Some ''low'',
      an_success = False,
      an_error = Some (message imageError)\<rparr>"

text \<open>The \<^verbatim>\<open>try\<close> block of one loop iteration: \<open>Inl\<close> is the exception it throws.\<close>

definition try_analyse_image :: "env \<Rightarrow> nat \<Rightarrow> uploaded_file \<Rightarrow> js_error + analysis" where
  "try_analyse_image e i file =
     (case classifyImageWithGPT4o e i file of
        Rejected err \<Rightarrow> Inl err
      | Resolved classification \<Rightarrow>
          if \<not> cls_success classification
          then Inl (Error (''image classification failed: '' @ cls_error classification))
          else
            (case (if cls_classification classification = ''chat''
                   then analyzeChatImageWithGPT4o e i file
                   else if cls_classification classification = ''photo''
                   then analyzePhotoImageWithGPT4o e i file
                   else (case analyzeImageWithGPT4o e i file of
                           Rejected err \<Rightarrow> Rejected err
                         | Resolved a \<Rightarrow> Resolved (a\<lparr>an_analysis_type := Some ''unknown''\<rparr>)))
             of
               Rejected err \<Rightarrow> Inl err
             | Resolved a \<Rightarrow>
                 Inr (a\<lparr>an_classification := Some (cls_classification classification)\<rparr>)))"

definition analyse_image :: "env \<Rightarrow> nat \<Rightarrow> uploaded_file \<Rightarrow> analysis" where
  "analyse_image e i file =
     (case try_analyse_image e i file of
        Inl imageError \<Rightarrow> error_marker file imageError
      | Inr a \<Rightarrow> a)"

text \<open>
  The loop \<^verbatim>\<open>for (let i = 0; i < validImageFiles.length; i++)\<close>, from index \<open>i\<close> on, over
  the files still to visit; \<open>n\<close> is \<^verbatim>\<open>validImageFiles.length\<close>. It gives the store calls and
  the entries pushed on \<^verbatim>\<open>imageAnalyses\<close>.
\<close>

fun image_loop ::
  "env \<Rightarrow> nat \<Rightarrow> nat \<Rightarrow> uploaded_file list \<Rightarrow> response store_op list \<times> analysis list" where
  "image_loop e n i [] = ([], [])"
| "image_loop e n i (file # files) =
     (let prog = 30 + round_times20 i n;
          (ops, analyses) = image_loop e n (Suc i) files
      in (Update PROCESSING
            (''processing image '' @ show_nat (i + 1) @ ''/'' @ show_nat n) prog # ops,
          analyse_image e i file # analyses))"

text \<open>Stage 2: the store calls and \<^verbatim>\<open>imageAnalyses\<close>.\<close>

definition stage2 :: "env \<Rightarrow> uploaded_file list \<Rightarrow> response store_op list \<times> analysis list" where
  "stage2 e uploadedFiles =
     (let validImageFiles =
            filter (\<lambda>file. path file \<noteq> [] \<and> existsSync e (path file) \<and> size_bytes file > 0)
              uploadedFiles
      in if length validImageFiles > 0
         then
           (let (ops, analyses) = image_loop e (length validImageFiles) 0 validImageFiles
            in (Update PROCESSING
                  (''analysing '' @ show_nat (length validImageFiles) @ '' images'') 30 # ops,
                analyses))
         else ([Update PROCESSING ''no images to analyse'' 50], []))"

definition fallback_query :: "userInfo \<Rightarrow> jsstring" where
  "fallback_query userInfo =
     or_else (Some (bioOrChatHistory userInfo))
       (nickname userInfo @ lit '' '' @ profession userInfo @ lit '' safety analysis'')"

text \<open>
  Stage 3: \<^verbatim>\<open>enhancedQuery\<close> and \<^verbatim>\<open>queryOptimizationResult\<close> (\<open>None\<close> is \<^verbatim>\<open>null\<close>).
  Both branches on \<^verbatim>\<open>success\<close> take \<^verbatim>\<open>enhanced_query\<close> of the resolved object; the
  statistics that the logging of the first branch reads are always in that object.
\<close>

definition stage3 ::
  "env \<Rightarrow> userInfo \<Rightarrow> analysis list \<Rightarrow> jsstring \<times> query_optimization option" where
  "stage3 e userInfo imageAnalyses =
     (case enhanceQueryWithAI e userInfo imageAnalyses of
        Resolved queryOptimizationResult \<Rightarrow>
          (qo_enhanced_query queryOptimizationResult, Some queryOptimizationResult)
      | Rejected enhanceError \<Rightarrow> (fallback_query userInfo, None))"

text \<open>
  \<^verbatim>\<open>callRAGSystem\<close>: every way out of the promise is a \<^verbatim>\<open>resolve\<close>; none is a
  \<^verbatim>\<open>reject\<close>.
\<close>

definition actualQuery_of :: "userInfo \<Rightarrow> jsstring option \<Rightarrow> jsstring" where
  "actualQuery_of userInfo enhancedQuery =
     or_else enhancedQuery (or_else (Some (bioOrChatHistory userInfo)) [])"

definition callRAGSystem ::
  "env \<Rightarrow> userInfo \<Rightarrow> analysis list \<Rightarrow> jsstring option \<Rightarrow> knowledge awaited" where
  "callRAGSystem e userInfo imageInfos enhancedQuery =
     (let actualQuery = actualQuery_of userInfo enhancedQuery
      in case rag_process e actualQuery of
           SpawnThrows err \<Rightarrow> Resolved (RagReport generateFallbackReport)
         | ProcessError err \<Rightarrow> Resolved (RagReport generateFallbackReport)
         | TimedOut \<Rightarrow> Resolved (RagReport generateFallbackReport)
         | Closed code outputData \<Rightarrow>
             if code = 0
             then
               (case parse_rag_output e outputData of
                  None \<Rightarrow> Resolved (RagReport generateFallbackReport)
                | Some res \<Rightarrow>
                    if rag_success res then Resolved (rag_data res)
                    else
                      (case rag_fallback_report res of
                         Some r \<Rightarrow> Resolved (RagReport r)
                       | None \<Rightarrow> Resolved (RagReport generateFallbackReport)))
             else Resolved (RagReport generateFallbackReport))"

text \<open>Stage 4: \<^verbatim>\<open>ragKnowledge\<close>.\<close>

definition stage4 :: "env \<Rightarrow> userInfo \<Rightarrow> analysis list \<Rightarrow> jsstring \<Rightarrow> knowledge" where
  "stage4 e userInfo imageAnalyses enhancedQuery =
     (if ragSystemReady e
      then
        (case callRAGSystem e userInfo imageAnalyses (Some enhancedQuery) of
           Resolved k \<Rightarrow> k
         | Rejected ragError \<Rightarrow> RagReport generateFallbackReport)
      else RagReport generateFallbackReport)"

text \<open>Stage 5: \<^verbatim>\<open>finalReport\<close>.\<close>

definition stage5 :: "env \<Rightarrow> userInfo \<Rightarrow> analysis list \<Rightarrow> knowledge \<Rightarrow> report" where
  "stage5 e userInfo imageAnalyses ragKnowledge =
     (case generateFinalReportWithGPT4o e userInfo imageAnalyses ragKnowledge of
        Resolved r \<Rightarrow> r
      | Rejected finalError \<Rightarrow> generateFallbackReport)"

text \<open>
  Stage 6: the response object. A report object is truthy, so \<^verbatim>\<open>final_analysis_status\<close>
  is always \<^verbatim>\<open>'success'\<close>.
\<close>

definition build_response ::
  "env \<Rightarrow> string \<Rightarrow> userInfo \<Rightarrow> analysis list \<Rightarrow> query_optimization option \<Rightarrow> knowledge \<Rightarrow>
   report \<Rightarrow> response" where
  "build_response e taskId userInfo imageAnalyses queryOptimizationResult ragKnowledge
       finalReport =
     (let processingTime = endTime e - startTime e
      in \<lparr>rsp_success = True,
          rsp_timestamp = endTime e,
          rsp_processing_time = processingTime,
          rsp_user_info = userInfo,
          rsp_image_analyses = imageAnalyses,
          rsp_query_optimization =
            (case queryOptimizationResult of
               Some q \<Rightarrow> q
             | None \<Rightarrow>
                 \<lparr>qo_success = False,
                  qo_error = Some ''query optimisation not run'',
                  qo_original_query = bioOrChatHistory userInfo,
                  qo_enhanced_query = bioOrChatHistory userInfo,
                  qo_token_usage = 0\<rparr>),
          rsp_rag_knowledge = ragKnowledge,
          rsp_final_report = finalReport,
          rsp_task_id = taskId,
          rsp_analysis_stats =
            \<lparr>images_processed = length imageAnalyses,
             images_successful = length (filter an_success imageAnalyses),
             query_optimization_success =
               (case queryOptimizationResult of Some q \<Rightarrow> qo_success q | None \<Rightarrow> False),
             query_enhancement_token_usage =
               (case queryOptimizationResult of Some q \<Rightarrow> qo_token_usage q | None \<Rightarrow> 0),
             rag_status = (if ragSystemReady e then ''active'' else ''fallback''),
             final_analysis_status = ''success'',
             total_processing_time = processingTime\<rparr>\<rparr>)"

text \<open>
  The body of the outer \<^verbatim>\<open>try\<close> up to the response: the store calls it makes, and how it
  ends, with the exception thrown (\<open>Inl\<close>) or with the response built (\<open>Inr\<close>).
\<close>

definition pipeline_stages ::
  "env \<Rightarrow> string \<Rightarrow> userInfo \<Rightarrow> uploaded_file list \<Rightarrow>
   response store_op list \<times> (js_error + response)" where
  "pipeline_stages e taskId userInfo uploadedFiles =
     (if trim (nickname userInfo) = []
      then ([Update PROCESSING ''start data validation'' 10],
            Inl (Error ''nickname must not be empty: the safety analysis rests on it''))
      else
        (let (ops2, imageAnalyses) = stage2 e uploadedFiles;
             (enhancedQuery, queryOptimizationResult) = stage3 e userInfo imageAnalyses;
             ragKnowledge = stage4 e userInfo imageAnalyses enhancedQuery;
             finalReport = stage5 e userInfo imageAnalyses ragKnowledge
         in ([Update PROCESSING ''start data validation'' 10,
              Update PROCESSING ''input data validated'' 20]
             @ ops2
             @ [Update PROCESSING ''AI query optimisation in progress'' 55,
                Update PROCESSING ''AI query optimisation done'' 58,
                Update PROCESSING ''RAG knowledge retrieval in progress'' 60,
                Update PROCESSING ''RAG knowledge retrieval done'' 70,
                Update PROCESSING ''generating final analysis'' 80,
                Update PROCESSING ''building final response'' 90],
             Inr (build_response e taskId userInfo imageAnalyses queryOptimizationResult
                    ragKnowledge finalReport))))"

text \<open>
  \<^verbatim>\<open>processAnalysisTask\<close>: the \<^verbatim>\<open>try\<close> block ends with \<^verbatim>\<open>setTaskResult\<close>; an exception
  that leaves it reaches the outer \<^verbatim>\<open>catch\<close>, which calls \<^verbatim>\<open>setTaskError\<close>.
\<close>

definition processAnalysisTask ::
  "env \<Rightarrow> string \<Rightarrow> userInfo \<Rightarrow> uploaded_file list \<Rightarrow> response store_op list" where
  "processAnalysisTask e taskId userInfo uploadedFiles =
     (case pipeline_stages e taskId userInfo uploadedFiles of
        (ops, Inr res) \<Rightarrow> ops @ [SetResult res]
      | (ops, Inl err) \<Rightarrow> ops @ [SetError err])"

text \<open>Running store calls one after the other, call \<open>k\<close> at time \<open>clock k\<close>.\<close>

fun run_ops ::
  "(nat \<Rightarrow> int) \<Rightarrow> nat \<Rightarrow> string \<Rightarrow> 'r store_op list \<Rightarrow> ('i, 'r) taskStorage \<Rightarrow>
   ('i, 'r) taskStorage" where
  "run_ops clock k taskId [] taskStorage = taskStorage"
| "run_ops clock k taskId (op # ops) taskStorage =
     run_ops clock (Suc k) taskId ops (apply_op (clock k) taskId op taskStorage)"

subsection \<open>Submission and status endpoints of \<^verbatim>\<open>src/server.js\<close>\<close>

text \<open>
  The text fields of \<^verbatim>\<open>req.body\<close> (\<open>None\<close> when the form lacks the field) and
  \<^verbatim>\<open>req.files\<close>. Every field is a string: a form that repeats a field, which multer
  delivers as an array, is not described by this type.
\<close>

record request =
  body_nickname :: "jsstring option"
  body_profession :: "jsstring option"
  body_age :: "jsstring option"
  body_bioOrChatHistory :: "jsstring option"
  req_files :: "uploaded_file list"

record submit_response =
  sub_http_status :: nat
  sub_success :: bool
  sub_error :: "string option"
  sub_task_id :: "string option"
  sub_estimated_time :: "nat option"
  sub_status_check_url :: "string option"

definition read_userInfo :: "request \<Rightarrow> userInfo" where
  "read_userInfo req =
     \<lparr>nickname = or_else (body_nickname req) [],
      profession = or_else (body_profession req) [],
      age = or_else (body_age req) [],
      bioOrChatHistory = or_else (body_bioOrChatHistory req) []\<rparr>"

text \<open>
  \<^verbatim>\<open>POST /api/generate_warning_report\<close>: the response sent, the store afterwards, and the
  pipeline run handed to \<^verbatim>\<open>setImmediate\<close>, if any.
\<close>

definition generate_warning_report ::
  "request \<Rightarrow> string \<Rightarrow> int \<Rightarrow> (snapshot, response) taskStorage \<Rightarrow>
   submit_response \<times> (snapshot, response) taskStorage
     \<times> (string \<times> userInfo \<times> uploaded_file list) option" where
  "generate_warning_report req taskId now taskStorage =
     (let userInfo = read_userInfo req
      in if trim (nickname userInfo) = []
         then
           (\<lparr>sub_http_status = 400, sub_success = False,
             sub_error = Some ''nickname must not be empty: the safety analysis rests on it'',
             sub_task_id = None, sub_estimated_time = None, sub_status_check_url = None\<rparr>,
            taskStorage, None)
         else
           (let uploadedFiles = req_files req;
                taskStorage' =
                  createTask taskId now
                    \<lparr>snap_userInfo = userInfo, snap_filesCount = length uploadedFiles,
                     snap_submittedAt = now\<rparr> taskStorage;
                estimatedTime = max 30 (length uploadedFiles * 20 + 60)
            in (\<lparr>sub_http_status = 200, sub_success = True, sub_error = None,
                 sub_task_id = Some taskId, sub_estimated_time = Some estimatedTime,
                 sub_status_check_url = Some (''/api/report_status/'' @ taskId)\<rparr>,
                taskStorage', Some (taskId, userInfo, uploadedFiles))))"

text \<open>
  The JSON body of the status endpoint, without its \<^verbatim>\<open>timestamp\<close>; a key the body lacks
  is \<open>None\<close>.
\<close>

record 'r status_payload =
  sp_success :: bool
  sp_task_id :: string
  sp_status :: "TaskStatus option"
  sp_progress :: "int option"
  sp_current_step :: "string option"
  sp_created_at :: "int option"
  sp_updated_at :: "int option"
  sp_completed :: "bool option"
  sp_failed :: "bool option"
  sp_result :: "'r option"
  sp_error :: "error_value option"
  sp_processing_time :: "int option"
  sp_fallback_report :: "report option"
  sp_message :: "string option"

definition not_found_payload :: "string \<Rightarrow> 'r status_payload" where
  "not_found_payload taskId =
     \<lparr>sp_success = False, sp_task_id = taskId, sp_status = None, sp_progress = None,
      sp_current_step = None, sp_created_at = None, sp_updated_at = None,
      sp_completed = None, sp_failed = None, sp_result = None,
      sp_error = Some (ErrorText ''task does not exist or has expired''),
      sp_processing_time = None, sp_fallback_report = None, sp_message = None\<rparr>"

definition base_payload :: "string \<Rightarrow> ('i, 'r) task \<Rightarrow> 'r status_payload" where
  "base_payload taskId t =
     \<lparr>sp_success = True, sp_task_id = taskId, sp_status = Some (status t),
      sp_progress = Some (progress t), sp_current_step = Some (current_step t),
      sp_created_at = Some (created_at t), sp_updated_at = Some (updated_at t),
      sp_completed = None, sp_failed = None, sp_result = None, sp_error = None,
      sp_processing_time = None, sp_fallback_report = None, sp_message = None\<rparr>"

definition step_message :: "('i, 'r) task \<Rightarrow> string" where
  "step_message t = (if current_step t \<noteq> [] then current_step t else ''task in progress...'')"

text \<open>\<^verbatim>\<open>GET /api/report_status/:taskId\<close> of \<^verbatim>\<open>src/server.js\<close>: HTTP status and body.\<close>

definition report_status ::
  "string \<Rightarrow> ('i, 'r) taskStorage \<Rightarrow> nat \<times> 'r status_payload" where
  "report_status taskId taskStorage =
     (case getTask taskId taskStorage of
        None \<Rightarrow> (404, not_found_payload taskId)
      | Some t \<Rightarrow>
          (200,
           if status t = COMPLETED \<and> result t \<noteq> None
           then (base_payload taskId t)
                  \<lparr>sp_completed := Some True, sp_result := result t,
                   sp_processing_time := Some (processing_time t)\<rparr>
           else if status t = FAILED
           then (base_payload taskId t)
                  \<lparr>sp_completed := Some True, sp_failed := Some True, sp_error := error t,
                   sp_processing_time := Some (processing_time t),
                   sp_fallback_report := Some generateFallbackReport\<rparr>
           else (base_payload taskId t)
                  \<lparr>sp_completed := Some False, sp_message := Some (step_message t)\<rparr>))"

subsection \<open>The server as a transition system\<close>

text \<open>
  The state of the process: the task store and, for every task identifier issued so far,
  the store calls its pipeline run has still to make. A step is one handler of the event
  loop: a submission (with a fresh identifier from \<^verbatim>\<open>uuidv4\<close>), the next store call of a
  running pipeline, a sweep, or a status query, which changes nothing.
\<close>

record server_state =
  store :: "(snapshot, response) taskStorage"
  running :: "string \<rightharpoonup> response store_op list"

inductive step :: "server_state \<Rightarrow> server_state \<Rightarrow> bool" where
  submit:
    "taskId \<notin> dom (running s) \<Longrightarrow>
     generate_warning_report req taskId now (store s) = (rsp, taskStorage', scheduled) \<Longrightarrow>
     step s
       \<lparr>store = taskStorage',
        running =
          (case scheduled of
             None \<Rightarrow> running s
           | Some (tid, userInfo, uploadedFiles) \<Rightarrow>
               (running s)(tid \<mapsto> processAnalysisTask e tid userInfo uploadedFiles))\<rparr>"
| advance:
    "running s taskId = Some (op # ops) \<Longrightarrow>
     step s \<lparr>store = apply_op now taskId op (store s), running = (running s)(taskId \<mapsto> ops)\<rparr>"
| sweep:
    "step s \<lparr>store = cleanupOldTasks now (store s), running = running s\<rparr>"
| query:
    "report_status taskId (store s) = (code, body) \<Longrightarrow> step s s"

inductive reachable :: "server_state \<Rightarrow> bool" where
  init: "reachable \<lparr>store = Map.empty, running = Map.empty\<rparr>"
| next_state: "reachable s \<Longrightarrow> step s s' \<Longrightarrow> reachable s'"

subsection \<open>The simplified server of \<^verbatim>\<open>src/api/server.js\<close>\<close>

text \<open>What \<^verbatim>\<open>callRAGSystemVercel\<close> resolves to.\<close>

record rag_result =
  rr_error :: "string option"
  rr_answer :: string
  rr_sources_count :: nat

record vercel_env =
  callRAGSystemVercel :: "jsstring \<Rightarrow> rag_result awaited"
  generateFinalReport :: "userInfo \<Rightarrow> rag_result \<Rightarrow> report awaited"

record vercel_result =
  vr_success :: bool
  vr_user_info :: userInfo
  vr_rag_status :: string
  vr_sources_count :: nat
  vr_knowledge_answer :: string
  vr_final_report :: report

text \<open>\<^verbatim>\<open>processAnalysisVercel\<close>: the store calls of a run.\<close>

definition processAnalysisVercel ::
  "vercel_env \<Rightarrow> string \<Rightarrow> userInfo \<Rightarrow> vercel_result store_op list" where
  "processAnalysisVercel e taskId userInfo =
     (case callRAGSystemVercel e (bioOrChatHistory userInfo) of
        Rejected err \<Rightarrow> [SetError err]
      | Resolved ragResult \<Rightarrow>
          (case generateFinalReport e userInfo ragResult of
             Rejected err \<Rightarrow> [SetError err]
           | Resolved finalReport \<Rightarrow>
               [SetResult
                  \<lparr>vr_success = True, vr_user_info = userInfo,
                   vr_rag_status = (if rr_error ragResult \<noteq> None then ''error'' else ''active''),
                   vr_sources_count = rr_sources_count ragResult,
                   vr_knowledge_answer = rr_answer ragResult,
                   vr_final_report = finalReport\<rparr>]))"

text \<open>
  \<^verbatim>\<open>POST /api/generate_warning_report\<close> of \<^verbatim>\<open>src/api/server.js\<close>: no check of the
  fields; the task is created and the pipeline called.
\<close>

definition generate_warning_report_vercel ::
  "request \<Rightarrow> string \<Rightarrow> int \<Rightarrow> (userInfo, vercel_result) taskStorage \<Rightarrow>
   submit_response \<times> (userInfo, vercel_result) taskStorage \<times> (string \<times> userInfo) option" where
  "generate_warning_report_vercel req taskId now taskStorage =
     (let userInfo = read_userInfo req;
          taskStorage' = createTask taskId now userInfo taskStorage
      in (\<lparr>sub_http_status = 200, sub_success = True, sub_error = None,
           sub_task_id = Some taskId, sub_estimated_time = Some 30,
           sub_status_check_url = Some (''/api/report_status/'' @ taskId)\<rparr>,
          taskStorage', Some (taskId, userInfo)))"

text \<open>\<^verbatim>\<open>GET /api/report_status/:taskId\<close> of \<^verbatim>\<open>src/api/server.js\<close>.\<close>

definition report_status_vercel ::
  "string \<Rightarrow> ('i, 'r) taskStorage \<Rightarrow> nat \<times> 'r status_payload" where
  "report_status_vercel taskId taskStorage =
     (case getTask taskId taskStorage of
        None \<Rightarrow> (404, not_found_payload taskId)
      | Some t \<Rightarrow>
          (200,
           if status t = COMPLETED \<and> result t \<noteq> None
           then (base_payload taskId t)
                  \<lparr>sp_completed := Some True, sp_result := result t,
                   sp_processing_time := Some (processing_time t)\<rparr>
           else if status t = FAILED
           then (base_payload taskId t)
                  \<lparr>sp_completed := Some True, sp_failed := Some True, sp_error := error t\<rparr>
           else (base_payload taskId t)
                  \<lparr>sp_completed := Some False, sp_message := Some (step_message t)\<rparr>))"

subsection \<open>Client poller\<close>

text \<open>
  What one \<^verbatim>\<open>fetch\<close> of the status endpoint brings: the fetch or the reading of the body
  throws, the response is not \<^verbatim>\<open>ok\<close> (status code and text), or a JSON body arrives. The
  body is kept by the truthiness of \<^verbatim>\<open>completed\<close> and \<^verbatim>\<open>failed\<close>, the \<^verbatim>\<open>error\<close> text
  (empty when the key is missing) and the \<^verbatim>\<open>result\<close>. The updates of the progress
  indicator (\<^verbatim>\<open>setTaskStatus\<close>) are not part of the embedding.
\<close>

record 'r status_result =
  st_completed :: bool
  st_failed :: bool
  st_error :: string
  st_result :: 'r

datatype 'r poll_reply = FetchThrows js_error | NotOk nat string | Body "'r status_result"

definition maxPolls :: nat where
  "maxPolls = 60"

definition pollInterval :: nat where
  "pollInterval = 5000"

definition timeout_error :: js_error where
  "timeout_error = Error ''task timed out, please retry later''"

text \<open>
  The \<^verbatim>\<open>try\<close> block of one iteration up to the wait: \<open>Inl\<close> is the exception thrown in it,
  \<open>Inr (Some r)\<close> the value returned from the function, \<open>Inr None\<close> falling through to the
  wait.
\<close>

definition try_poll :: "'r poll_reply \<Rightarrow> js_error + 'r option" where
  "try_poll reply =
     (case reply of
        FetchThrows err \<Rightarrow> Inl err
      | NotOk code text \<Rightarrow> Inl (Error (''status query failed: '' @ show_nat code @ '' '' @ text))
      | Body statusResult \<Rightarrow>
          if st_completed statusResult
          then
            (if st_failed statusResult
             then Inl (Error (if st_error statusResult \<noteq> [] then st_error statusResult
                              else ''analysis task failed''))
             else Inr (Some (st_result statusResult)))
          else Inr None)"

text \<open>
  A run of the poller: how it ends (the error thrown or the result returned), the number
  of fetches made, and the delays awaited between them, in milliseconds.
\<close>

record 'r poll_run =
  outcome :: "js_error + 'r"
  polls :: nat
  waits :: "nat list"

text \<open>The loop \<^verbatim>\<open>for (let i = 0; i < maxPolls; i++)\<close> from index \<open>i\<close> on, and what follows it.\<close>

function poll_from :: "(nat \<Rightarrow> 'r poll_reply) \<Rightarrow> nat \<Rightarrow> 'r poll_run" where
  "poll_from replies i =
     (if i < maxPolls
      then
        (case try_poll (replies i) of
           Inr (Some res) \<Rightarrow> \<lparr>outcome = Inr res, polls = Suc i, waits = []\<rparr>
         | Inr None \<Rightarrow>
             (let r = poll_from replies (Suc i)
              in if i < maxPolls - 1 then r\<lparr>waits := pollInterval # waits r\<rparr> else r)
         | Inl pollError \<Rightarrow>
             if i = maxPolls - 1
             then \<lparr>outcome = Inl pollError, polls = Suc i, waits = []\<rparr>
             else (let r = poll_from replies (Suc i) in r\<lparr>waits := 2000 # waits r\<rparr>))
      else \<lparr>outcome = Inl timeout_error, polls = i, waits = []\<rparr>)"
  by pat_completeness auto
termination
  by (relation "measure (\<lambda>(replies, i). maxPolls - i)") auto

declare poll_from.simps [simp del]

definition pollTaskStatus :: "(nat \<Rightarrow> 'r poll_reply) \<Rightarrow> 'r poll_run" where
  "pollTaskStatus replies = poll_from replies 0"

subsection \<open>Well-staged runs\<close>

text \<open>
  \<open>stages_from p ops\<close>: the calls \<open>ops\<close> are updates that keep the status \<open>processing\<close>
  and raise the progress from \<open>p\<close> on without reaching 100, followed by exactly one final
  call, \<^verbatim>\<open>setTaskResult\<close> or \<^verbatim>\<open>setTaskError\<close>.
\<close>

fun stages_from :: "int \<Rightarrow> 'r store_op list \<Rightarrow> bool" where
  "stages_from p [] = False"
| "stages_from p (Update st currentStep q # ops) =
     (st = PROCESSING \<and> p \<le> q \<and> q < 100 \<and> stages_from q ops)"
| "stages_from p (SetResult res # ops) = (ops = [])"
| "stages_from p (SetError err # ops) = (ops = [])"

fun starts_processing :: "'r store_op list \<Rightarrow> bool" where
  "starts_processing (Update st currentStep q # ops) = (st = PROCESSING)"
| "starts_processing ops = False"

text \<open>A task record together with the store calls its run has still to make.\<close>

definition task_ok :: "('i, 'r) task \<Rightarrow> 'r store_op list \<Rightarrow> bool" where
  "task_ok t ops =
     (case status t of
        PENDING \<Rightarrow>
          progress t = 0 \<and> result t = None \<and> error t = None
          \<and> starts_processing ops \<and> stages_from 0 ops
      | PROCESSING \<Rightarrow>
          0 \<le> progress t \<and> progress t < 100 \<and> result t = None \<and> error t = None
          \<and> stages_from (progress t) ops
      | COMPLETED \<Rightarrow>
          progress t = 100 \<and> result t \<noteq> None \<and> error t = None \<and> ops = []
      | FAILED \<Rightarrow>
          0 \<le> progress t \<and> progress t < 100 \<and> result t = None \<and> error t \<noteq> None
          \<and> ops = [])"

definition invariant :: "server_state \<Rightarrow> bool" where
  "invariant s \<longleftrightarrow>
     (\<forall>taskId t. store s taskId = Some t \<longrightarrow>
        (\<exists>ops. running s taskId = Some ops \<and> task_ok t ops))"

definition terminal :: "TaskStatus \<Rightarrow> bool" where
  "terminal st \<longleftrightarrow> st = COMPLETED \<or> st = FAILED"

subsection \<open>Failing collaborators\<close>

text \<open>
  A classification call fails when its promise is rejected or resolves to the object with
  \<^verbatim>\<open>success: false\<close> that the \<^verbatim>\<open>catch\<close> of \<^verbatim>\<open>classifyImageWithGPT4o\<close> returns.
\<close>

definition classification_fails :: "classification_result awaited \<Rightarrow> bool" where
  "classification_fails r = (case r of Rejected err \<Rightarrow> True | Resolved c \<Rightarrow> \<not> cls_success c)"

definition enhancement_fails :: "query_optimization awaited \<Rightarrow> bool" where
  "enhancement_fails r = (case r of Rejected err \<Rightarrow> True | Resolved q \<Rightarrow> \<not> qo_success q)"

text \<open>
  The retrieval call fails or times out: the process cannot be started, emits an error,
  outlives the timer, exits with a non-zero code, or prints what cannot be parsed.
\<close>

definition retrieval_fails :: "env \<Rightarrow> jsstring \<Rightarrow> bool" where
  "retrieval_fails e actualQuery =
     (case rag_process e actualQuery of
        Closed code outputData \<Rightarrow> code \<noteq> 0 \<or> parse_rag_output e outputData = None
      | _ \<Rightarrow> True)"

text \<open>
  The synthesis call fails: rejected, or resolved to the fallback report that the
  \<^verbatim>\<open>catch\<close> of \<^verbatim>\<open>generateFinalReportWithGPT4o\<close> returns.
\<close>

definition synthesis_fails :: "report awaited \<Rightarrow> bool" where
  "synthesis_fails r =
     (case r of Rejected err \<Rightarrow> True | Resolved rep \<Rightarrow> rep = generateFallbackReport)"

definition valid_files :: "env \<Rightarrow> uploaded_file list \<Rightarrow> uploaded_file list" where
  "valid_files e uploadedFiles =
     filter (\<lambda>file. path file \<noteq> [] \<and> existsSync e (path file) \<and> size_bytes file > 0)
       uploadedFiles"

text \<open>Every collaborator call that a run makes fails.\<close>

definition collaborators_fail :: "env \<Rightarrow> userInfo \<Rightarrow> uploaded_file list \<Rightarrow> bool" where
  "collaborators_fail e userInfo uploadedFiles =
     (let imageAnalyses = snd (stage2 e uploadedFiles);
          enhancedQuery = fst (stage3 e userInfo imageAnalyses);
          ragKnowledge = stage4 e userInfo imageAnalyses enhancedQuery
      in list_all (\<lambda>(i, file). classification_fails (classifyImageWithGPT4o e i file))
           (enumerate 0 (valid_files e uploadedFiles))
         \<and> enhancement_fails (enhanceQueryWithAI e userInfo imageAnalyses)
         \<and> (ragSystemReady e \<longrightarrow>
              retrieval_fails e (actualQuery_of userInfo (Some enhancedQuery)))
         \<and> synthesis_fails
              (generateFinalReportWithGPT4o e userInfo imageAnalyses ragKnowledge))"

text \<open>A response built from fallback values only.\<close>

definition degraded :: "response \<Rightarrow> bool" where
  "degraded res \<longleftrightarrow>
     list_all (\<lambda>a. \<not> an_success a \<and> an_classification a = Some ''error'')
       (rsp_image_analyses res)
     \<and> \<not> qo_success (rsp_query_optimization res)
     \<and> rsp_rag_knowledge res = RagReport generateFallbackReport
     \<and> rsp_final_report res = generateFallbackReport"

subsection \<open>Sample inputs\<close>

definition alice :: userInfo where
  "alice = \<lparr>nickname = lit ''Alice'', profession = [], age = [], bioOrChatHistory = []\<rparr>"

definition alice_request :: request where
  "alice_request =
     \<lparr>body_nickname = Some (lit ''Alice''), body_profession = None, body_age = None,
      body_bioOrChatHistory = None, req_files = []\<rparr>"

definition blank_request :: request where
  "blank_request =
     \<lparr>body_nickname = Some (lit ''  ''), body_profession = None, body_age = None,
      body_bioOrChatHistory = None, req_files = []\<rparr>"

definition photo :: uploaded_file where
  "photo = \<lparr>path = ''uploads/p1.jpg'', filename = ''p1.jpg'', size_bytes = 2048\<rparr>"

text \<open>Surroundings in which every collaborator is down.\<close>

definition failing_env :: env where
  "failing_env =
     \<lparr>existsSync = (\<lambda>p. True),
      classifyImageWithGPT4o =
        (\<lambda>i file. Resolved \<lparr>cls_filename = filename file, cls_classification = ''unknown'',
                             cls_success = False, cls_error = ''connection error''\<rparr>),
      analyzeChatImageWithGPT4o = (\<lambda>i file. Rejected (Error ''connection error'')),
      analyzePhotoImageWithGPT4o = (\<lambda>i file. Rejected (Error ''connection error'')),
      analyzeImageWithGPT4o = (\<lambda>i file. Rejected (Error ''connection error'')),
      enhanceQueryWithAI =
        (\<lambda>userInfo imageAnalyses.
           Resolved \<lparr>qo_success = False, qo_error = Some ''connection error'',
                     qo_original_query = fallback_query userInfo,
                     qo_enhanced_query = fallback_query userInfo, qo_token_usage = 0\<rparr>),
      ragSystemReady = True,
      rag_process = (\<lambda>q. TimedOut),
      parse_rag_output = (\<lambda>outputData. None),
      generateFinalReportWithGPT4o =
        (\<lambda>userInfo imageAnalyses ragKnowledge. Resolved generateFallbackReport),
      startTime = 1000,
      endTime = 2000\<rparr>"

definition blank :: userInfo where
  "blank = \<lparr>nickname = lit ''  '', profession = [], age = [], bioOrChatHistory = []\<rparr>"

definition vercel_env_up :: vercel_env where
  "vercel_env_up =
     \<lparr>callRAGSystemVercel =
        (\<lambda>q. Resolved \<lparr>rr_error = None, rr_answer = ''knowledge answer'',
                        rr_sources_count = 1\<rparr>),
      generateFinalReport =
        (\<lambda>userInfo ragResult.
           Resolved \<lparr>risk_level = ''low risk'', key_findings = [],
                     final_suggestion = ''keep observing'', confidence_level = ''high'',
                     report_note = None\<rparr>)\<rparr>"

definition alice_snapshot :: snapshot where
  "alice_snapshot = \<lparr>snap_userInfo = alice, snap_filesCount = 0, snap_submittedAt = 0\<rparr>"

text \<open>The server right after Alice's submission, and after the run of her pipeline.\<close>

definition server_created :: server_state where
  "server_created =
     \<lparr>store = createTask ''t1'' 0 alice_snapshot Map.empty,
      running = [''t1'' \<mapsto> processAnalysisTask failing_env ''t1'' alice []]\<rparr>"

definition server_done :: server_state where
  "server_done =
     \<lparr>store =
        run_ops (\<lambda>k. int k) 0 ''t1'' (processAnalysisTask failing_env ''t1'' alice [])
          (createTask ''t1'' 0 alice_snapshot Map.empty),
      running = [''t1'' \<mapsto> []]\<rparr>"

text \<open>The server after the first store call of Alice's run.\<close>

definition server_started :: server_state where
  "server_started =
     \<lparr>store =
        apply_op 1 ''t1'' (hd (processAnalysisTask failing_env ''t1'' alice []))
          (createTask ''t1'' 0 alice_snapshot Map.empty),
      running = [''t1'' \<mapsto> tl (processAnalysisTask failing_env ''t1'' alice [])]\<rparr>"

text \<open>A store with one failed task, for either server.\<close>

definition failed_store :: "'i \<Rightarrow> ('i, 'r) taskStorage" where
  "failed_store d = setTaskError ''t1'' (Error ''boom'') 7 (createTask ''t1'' 0 d Map.empty)"

text \<open>
  The delay awaited after an iteration that neither returns nor is the last: 2000 ms
  in the \<^verbatim>\<open>catch\<close>, \<^verbatim>\<open>pollInterval\<close> at the end of the \<^verbatim>\<open>try\<close> block.
\<close>

definition wait_after :: "'r poll_reply \<Rightarrow> nat" where
  "wait_after reply = (case try_poll reply of Inl err \<Rightarrow> 2000 | Inr x \<Rightarrow> pollInterval)"

text \<open>A reply that reports the task completed and not failed, or completed and failed.\<close>

definition reports_success :: "'r poll_reply \<Rightarrow> bool" where
  "reports_success reply =
     (case reply of Body b \<Rightarrow> st_completed b \<and> \<not> st_failed b | _ \<Rightarrow> False)"

definition reports_failure :: "'r poll_reply \<Rightarrow> bool" where
  "reports_failure reply =
     (case reply of Body b \<Rightarrow> st_completed b \<and> st_failed b | _ \<Rightarrow> False)"

text \<open>Sample replies: done at the fourth poll; a server that is down; a failed task.\<close>

definition in_progress :: "nat status_result" where
  "in_progress = \<lparr>st_completed = False, st_failed = False, st_error = [], st_result = 0\<rparr>"

definition replies_done :: "nat \<Rightarrow> nat poll_reply" where
  "replies_done i =
     (if i < 3 then Body in_progress
      else Body \<lparr>st_completed = True, st_failed = False, st_error = [], st_result = 42\<rparr>)"

definition replies_down :: "nat \<Rightarrow> nat poll_reply" where
  "replies_down i = NotOk 500 ''Internal Server Error''"

definition replies_failed :: "nat \<Rightarrow> nat poll_reply" where
  "replies_failed i =
     Body \<lparr>st_completed = True, st_failed = True, st_error = ''boom'', st_result = 0\<rparr>"

section \<open>Properties\<close>

subsection \<open>Every run of the pipeline is well staged\<close>

lemma round_times20_mono: "i \<le> j \<Longrightarrow> round_times20 i n \<le> round_times20 j n"
  unfolding round_times20_def by (simp add: div_le_mono)

lemma round_times20_le: "i \<le> n \<Longrightarrow> round_times20 i n \<le> 20"
proof (cases "n = 0")
  case True
  then show ?thesis by (simp add: round_times20_def)
next
  case False
  assume "i \<le> n"
  with False have "40 * i + n < 21 * (2 * n)" by simp
  then have "(40 * i + n) div (2 * n) < 21"
    by (simp add: less_mult_imp_div_less)
  then show ?thesis unfolding round_times20_def by simp
qed

lemma stages_from_weaken: "stages_from q ops \<Longrightarrow> p \<le> q \<Longrightarrow> stages_from p ops"
  by (induction q ops rule: stages_from.induct) auto

lemma image_loop_stages:
  "i + length files \<le> n \<Longrightarrow> p \<le> 30 + round_times20 i n \<Longrightarrow> stages_from 50 rest \<Longrightarrow>
   stages_from p (fst (image_loop e n i files) @ rest)"
proof (induction files arbitrary: i p)
  case Nil
  then have "i \<le> n" by simp
  then have "p \<le> 50" using Nil.prems(2) round_times20_le [of i n] by linarith
  with Nil.prems(3) show ?case by (simp add: stages_from_weaken)
next
  case (Cons f files)
  then have i: "i \<le> n" and step: "Suc i + length files \<le> n" by simp_all
  have mono: "30 + round_times20 i n \<le> 30 + round_times20 (Suc i) n"
    using round_times20_mono [of i "Suc i" n] by simp
  have tail: "stages_from (30 + round_times20 i n) (fst (image_loop e n (Suc i) files) @ rest)"
    using Cons.IH [OF step mono Cons.prems(3)] .
  have bound: "30 + round_times20 i n < 100" using round_times20_le [OF i] by linarith
  show ?case using Cons.prems(2) tail bound
    by (simp add: Let_def case_prod_beta)
qed

lemma image_loop_updates:
  "op \<in> set (fst (image_loop e n i files)) \<Longrightarrow> \<exists>lbl q. op = Update PROCESSING lbl q"
  by (induction files arbitrary: i) (auto simp: Let_def case_prod_beta)

lemma stage2_stages:
  "stages_from 50 rest \<Longrightarrow> p \<le> 30 \<Longrightarrow> stages_from p (fst (stage2 e files) @ rest)"
proof -
  assume rest: "stages_from 50 rest" and p: "p \<le> 30"
  let ?valid = "filter (\<lambda>file. path file \<noteq> [] \<and> existsSync e (path file) \<and> size_bytes file > 0) files"
  show ?thesis
  proof (cases "length ?valid > 0")
    case True
    have "stages_from 30 (fst (image_loop e (length ?valid) 0 ?valid) @ rest)"
      by (rule image_loop_stages) (simp_all add: rest round_times20_def)
    with True p show ?thesis
      by (simp add: stage2_def Let_def case_prod_beta)
  next
    case False
    with rest p show ?thesis by (simp add: stage2_def Let_def)
  qed
qed

lemma pipeline_shape:
  "\<exists>ops res. pipeline_stages e taskId userInfo files = (Update PROCESSING ''start data validation'' 10 # ops, res)
     \<and> stages_from 10 (ops @ [SetResult r]) \<and> stages_from 10 (ops @ [SetError x])"
proof (cases "trim (nickname userInfo) = []")
  case True
  then show ?thesis by (simp add: pipeline_stages_def)
next
  case False
  have tail: "\<And>last. last = SetResult r \<or> last = SetError x \<Longrightarrow> stages_from 50
    ([Update PROCESSING ''AI query optimisation in progress'' 55,
                Update PROCESSING ''AI query optimisation done'' 58,
                Update PROCESSING ''RAG knowledge retrieval in progress'' 60,
                Update PROCESSING ''RAG knowledge retrieval done'' 70,
                Update PROCESSING ''generating final analysis'' 80,
                Update PROCESSING ''building final response'' 90] @ [last])"
    by auto
  have a: "\<And>last. last = SetResult r \<or> last = SetError x \<Longrightarrow>
     stages_from 20 (fst (stage2 e files) @ [Update PROCESSING ''AI query optimisation in progress'' 55,
                Update PROCESSING ''AI query optimisation done'' 58,
                Update PROCESSING ''RAG knowledge retrieval in progress'' 60,
                Update PROCESSING ''RAG knowledge retrieval done'' 70,
                Update PROCESSING ''generating final analysis'' 80,
                Update PROCESSING ''building final response'' 90] @ [last])"
    by (rule stage2_stages [OF tail]) simp_all
  from False a[of "SetResult r"] a[of "SetError x"] show ?thesis
    by (simp add: pipeline_stages_def Let_def case_prod_beta)
qed

lemma processAnalysisTask_stages:
  "stages_from 0 (processAnalysisTask e taskId userInfo files)
   \<and> starts_processing (processAnalysisTask e taskId userInfo files)"
proof -
  obtain ops res where ps: "pipeline_stages e taskId userInfo files = (Update PROCESSING ''start data validation'' 10 # ops, res)"
    using pipeline_shape by blast
  show ?thesis
  proof (cases res)
    case (Inl x)
    from pipeline_shape [of e taskId userInfo files undefined x] ps Inl
    show ?thesis by (auto simp: processAnalysisTask_def)
  next
    case (Inr r)
    from pipeline_shape [of e taskId userInfo files r undefined] ps Inr
    show ?thesis by (auto simp: processAnalysisTask_def)
  qed
qed

subsection \<open>The invariant of the server\<close>

lemma apply_op_other:
  "taskId' \<noteq> taskId \<Longrightarrow> apply_op now taskId op taskStorage taskId' = taskStorage taskId'"
  by (cases op)
     (simp_all add: updateTaskStatus_def setTaskResult_def setTaskError_def split: option.splits)

lemma apply_op_absent:
  "taskStorage taskId = None \<Longrightarrow> apply_op now taskId op taskStorage = taskStorage"
  by (cases op)
     (simp_all add: updateTaskStatus_def setTaskResult_def setTaskError_def)

lemma apply_op_task_ok:
  assumes "taskStorage taskId = Some t" and "task_ok t (op # ops)"
  shows "\<exists>t'. apply_op now taskId op taskStorage taskId = Some t' \<and> task_ok t' ops
           \<and> progress t \<le> progress t' \<and> \<not> terminal (status t)
           \<and> (status t = PENDING \<longrightarrow> status t' = PROCESSING)"
proof (cases op)
  case (Update st lbl q)
  with assms show ?thesis
    by (cases "status t")
       (auto simp: task_ok_def updateTaskStatus_def terminal_def)
next
  case (SetResult r)
  with assms show ?thesis
    by (cases "status t")
       (auto simp: task_ok_def setTaskResult_def terminal_def)
next
  case (SetError x)
  with assms show ?thesis
    by (cases "status t")
       (auto simp: task_ok_def setTaskError_def terminal_def)
qed

lemma createTask_task_ok:
  "task_ok (the (createTask taskId now d taskStorage taskId)) (processAnalysisTask e taskId userInfo files)"
  using processAnalysisTask_stages [of e taskId userInfo files]
  by (simp add: createTask_def task_ok_def)

lemma invariantD:
  "invariant s \<Longrightarrow> store s taskId = Some t \<Longrightarrow>
   \<exists>ops. running s taskId = Some ops \<and> task_ok t ops"
  by (simp add: invariant_def)

lemma invariant_dom: "invariant s \<Longrightarrow> store s taskId = Some t \<Longrightarrow> taskId \<in> dom (running s)"
  by (auto simp: invariant_def)

lemma submit_cases:
  assumes "generate_warning_report req taskId now taskStorage = (rsp, taskStorage', scheduled)"
  shows "(trim (or_else (body_nickname req) []) = [] \<and> taskStorage' = taskStorage \<and> scheduled = None)
       \<or> (trim (or_else (body_nickname req) []) \<noteq> []
          \<and> (\<exists>d. taskStorage' = createTask taskId now d taskStorage)
          \<and> scheduled = Some (taskId, read_userInfo req, req_files req))"
  using assms
  by (auto simp: generate_warning_report_def read_userInfo_def Let_def split: if_splits)

lemma invariant_step:
  assumes inv: "invariant s" and st: "step s s'"
  shows "invariant s'"
  using st
proof cases
  case (submit taskId req now rsp taskStorage' scheduled e)
  from submit_cases [OF submit(3)] show ?thesis
  proof (elim disjE conjE exE)
    assume "taskStorage' = store s" "scheduled = None"
    with submit(1) inv show ?thesis by (simp add: invariant_def)
  next
    fix d
    assume c: "taskStorage' = createTask taskId now d (store s)"
      and sc: "scheduled = Some (taskId, read_userInfo req, req_files req)"
    show ?thesis
      unfolding invariant_def
    proof (intro allI impI)
      fix tid t
      assume a: "store s' tid = Some t"
      show "\<exists>ops. running s' tid = Some ops \<and> task_ok t ops"
      proof (cases "tid = taskId")
        case True
        with a c sc submit(1)
          createTask_task_ok [of taskId now d "store s" e "read_userInfo req" "req_files req"]
        show ?thesis by simp
      next
        case False
        with a c sc submit(1) inv show ?thesis
          by (simp add: invariant_def createTask_def)
      qed
    qed
  qed
next
  case (advance taskId op ops now)
  show ?thesis
    unfolding invariant_def
  proof (intro allI impI)
    fix tid t
    assume a: "store s' tid = Some t"
    show "\<exists>ops. running s' tid = Some ops \<and> task_ok t ops"
    proof (cases "tid = taskId")
      case True
      with a advance(1) have "store s taskId \<noteq> None"
        by (cases "store s taskId") (auto simp: apply_op_absent)
      then obtain t0 where t0: "store s taskId = Some t0" by blast
      from invariantD [OF inv t0] advance(2) have ok: "task_ok t0 (op # ops)" by auto
      from apply_op_task_ok [of "store s" taskId t0 op ops now] t0 ok a advance(1) True
      show ?thesis by auto
    next
      case False
      with a advance(1) inv show ?thesis
        by (simp add: invariant_def apply_op_other)
    qed
  qed
next
  case (sweep now)
  with inv show ?thesis
    by (auto simp: invariant_def cleanupOldTasks_def Let_def split: option.splits if_splits)
next
  case (query taskId code body)
  with inv show ?thesis by simp
qed

lemma reachable_invariant: "reachable s \<Longrightarrow> invariant s"
proof (induction rule: reachable.induct)
  case init
  show ?case by (simp add: invariant_def)
next
  case (next_state s s')
  then show ?case by (blast intro: invariant_step)
qed

subsection \<open>What one step and many steps do to a task\<close>

lemma step_running_dom: "step s s' \<Longrightarrow> taskId \<in> dom (running s) \<Longrightarrow> taskId \<in> dom (running s')"
  by (induction rule: step.cases) (auto split: option.splits)

lemma step_task:
  assumes inv: "invariant s" and st: "step s s'" and t: "store s tid = Some t"
  shows "store s' tid = None
       \<or> (\<exists>t'. store s' tid = Some t' \<and> progress t \<le> progress t'
             \<and> (terminal (status t) \<longrightarrow> t' = t)
             \<and> (status t = PENDING \<longrightarrow> status t' = PENDING \<or> status t' = PROCESSING))"
  using st
proof cases
  case (submit taskId req now rsp taskStorage' scheduled e)
  from invariant_dom [OF inv t] submit(2) have ne: "tid \<noteq> taskId" by auto
  from submit_cases [OF submit(3)] have "taskStorage' tid = store s tid"
    using ne by (auto simp: createTask_def)
  with submit(1) t show ?thesis by simp
next
  case (advance taskId op ops now)
  show ?thesis
  proof (cases "tid = taskId")
    case True
    from invariantD [OF inv t] advance(2) True have ok: "task_ok t (op # ops)" by auto
    from apply_op_task_ok [of "store s" tid t op ops now] t ok advance(1) True
    show ?thesis by auto
  next
    case False
    with advance(1) t show ?thesis by (simp add: apply_op_other)
  qed
next
  case (sweep now)
  with t show ?thesis by (simp add: cleanupOldTasks_def Let_def)
next
  case (query taskId code body)
  with t show ?thesis by simp
qed

lemma step_absent:
  assumes st: "step s s'" and t: "store s tid = None" and d: "tid \<in> dom (running s)"
  shows "store s' tid = None"
  using st
proof cases
  case (submit taskId req now rsp taskStorage' scheduled e)
  from d submit(2) have ne: "tid \<noteq> taskId" by auto
  from submit_cases [OF submit(3)] have "taskStorage' tid = store s tid"
    using ne by (auto simp: createTask_def)
  with submit(1) t show ?thesis by simp
next
  case (advance taskId op ops now)
  show ?thesis
  proof (cases "tid = taskId")
    case True
    with advance(1) t show ?thesis by (simp add: apply_op_absent)
  next
    case False
    with advance(1) t show ?thesis by (simp add: apply_op_other)
  qed
next
  case (sweep now)
  with t show ?thesis by (simp add: cleanupOldTasks_def Let_def)
next
  case (query taskId code body)
  with t show ?thesis by simp
qed

lemma step_created:
  assumes st: "step s s'" and t: "store s tid = None" and t': "store s' tid = Some t'"
  shows "status t' = PENDING \<and> progress t' = 0 \<and> result t' = None \<and> error t' = None"
  using st
proof cases
  case (submit taskId req now rsp taskStorage' scheduled e)
  from submit_cases [OF submit(3)] submit(1) t t' show ?thesis
    by (auto simp: createTask_def split: if_splits)
next
  case (advance taskId op ops now)
  show ?thesis
  proof (cases "tid = taskId")
    case True
    with advance(1) t t' show ?thesis by (simp add: apply_op_absent)
  next
    case False
    with advance(1) t t' show ?thesis by (simp add: apply_op_other)
  qed
next
  case (sweep now)
  with t t' show ?thesis by (simp add: cleanupOldTasks_def Let_def)
next
  case (query taskId code body)
  with t t' show ?thesis by simp
qed

lemma steps_reachable: "step\<^sup>*\<^sup>* s s' \<Longrightarrow> reachable s \<Longrightarrow> reachable s'"
  by (induction rule: rtranclp_induct) (auto intro: reachable.next_state)

lemma steps_task:
  assumes r: "reachable s" and t: "store s tid = Some t" and sts: "step\<^sup>*\<^sup>* s s'"
  shows "tid \<in> dom (running s')
       \<and> (store s' tid = None
          \<or> (\<exists>t'. store s' tid = Some t' \<and> progress t \<le> progress t'
                \<and> (terminal (status t) \<longrightarrow> t' = t)))"
  using sts
proof (induction rule: rtranclp_induct)
  case base
  from invariant_dom [OF reachable_invariant [OF r] t] t show ?case by simp
next
  case (step y z)
  from steps_reachable [OF step.hyps(1) r] have inv: "invariant y"
    by (rule reachable_invariant)
  from step.IH step_running_dom [OF step.hyps(2)] have d: "tid \<in> dom (running z)" by blast
  from step.IH show ?case
  proof (elim conjE disjE exE)
    assume "store y tid = None" and "tid \<in> dom (running y)"
    with step_absent [OF step.hyps(2)] d show ?thesis by simp
  next
    fix ty
    assume ty: "store y tid = Some ty" and le: "progress t \<le> progress ty"
      and tm: "terminal (status t) \<longrightarrow> ty = t"
    from step_task [OF inv step.hyps(2) ty] show ?thesis
    proof (elim disjE exE conjE)
      assume "store z tid = None"
      with d show ?thesis by simp
    next
      fix tz
      assume "store z tid = Some tz" "progress ty \<le> progress tz"
        "terminal (status ty) \<longrightarrow> tz = ty"
      with d le tm show ?thesis by auto
    qed
  qed
qed

subsection \<open>Sample runs\<close>

lemma trim_alice: "trim (lit ''Alice'') \<noteq> []"
  by (simp add: trim_def lit_def isWhiteSpace_def)

lemma trim_blank: "trim (lit ''  '') = []"
  by (simp add: trim_def lit_def isWhiteSpace_def)

lemma alice_ops:
  "processAnalysisTask failing_env ''t1'' alice [] =
     [Update PROCESSING ''start data validation'' 10,
      Update PROCESSING ''input data validated'' 20,
      Update PROCESSING ''no images to analyse'' 50,
      Update PROCESSING ''AI query optimisation in progress'' 55,
      Update PROCESSING ''AI query optimisation done'' 58,
      Update PROCESSING ''RAG knowledge retrieval in progress'' 60,
      Update PROCESSING ''RAG knowledge retrieval done'' 70,
      Update PROCESSING ''generating final analysis'' 80,
      Update PROCESSING ''building final response'' 90,
      SetResult (build_response failing_env ''t1'' alice []
        (Some \<lparr>qo_success = False, qo_error = Some ''connection error'',
                     qo_original_query = fallback_query alice,
                     qo_enhanced_query = fallback_query alice, qo_token_usage = 0\<rparr>)
        (RagReport generateFallbackReport) generateFallbackReport)]"
  by (simp add: processAnalysisTask_def pipeline_stages_def alice_def trim_alice stage2_def
      stage3_def stage4_def stage5_def failing_env_def callRAGSystem_def Let_def)

lemma reachable_server_created: "reachable server_created"
proof -
  have g: "generate_warning_report alice_request ''t1'' 0 Map.empty =
      (\<lparr>sub_http_status = 200, sub_success = True, sub_error = None,
        sub_task_id = Some ''t1'', sub_estimated_time = Some 60,
        sub_status_check_url = Some ''/api/report_status/t1''\<rparr>,
       createTask ''t1'' 0 alice_snapshot Map.empty, Some (''t1'', alice, []))"
    by (simp add: generate_warning_report_def read_userInfo_def alice_request_def or_else_def
        trim_alice alice_snapshot_def alice_def Let_def)
  have "step \<lparr>store = Map.empty, running = Map.empty\<rparr> server_created"
    using step.submit [of "''t1''" "\<lparr>store = Map.empty, running = Map.empty\<rparr>" alice_request 0 _ _ _ failing_env]
    by (simp add: g server_created_def)
  with reachable.init show ?thesis by (rule reachable.next_state)
qed

lemma run_reachable:
  "reachable s \<Longrightarrow> running s taskId = Some ops \<Longrightarrow>
   reachable \<lparr>store = run_ops clock k taskId ops (store s), running = (running s)(taskId \<mapsto> [])\<rparr>"
proof (induction ops arbitrary: s k)
  case Nil
  then have upd: "(running s)(taskId \<mapsto> []) = running s"
    by (simp add: fun_upd_idem)
  have eq: "\<lparr>store = run_ops clock k taskId [] (store s), running = (running s)(taskId \<mapsto> [])\<rparr> = s"
    by (rule server_state.equality) (simp_all add: upd)
  show ?case unfolding eq by (rule Nil.prems(1))
next
  case (Cons op ops)
  let ?s' = "\<lparr>store = apply_op (clock k) taskId op (store s), running = (running s)(taskId \<mapsto> ops)\<rparr>"
  from Cons.prems have "step s ?s'" by (intro step.advance)
  with Cons.prems have r: "reachable ?s'" by (blast intro: reachable.next_state)
  have "running ?s' taskId = Some ops" by simp
  from Cons.IH [OF r this, of "Suc k"] show ?case
    by (simp only: run_ops.simps server_state.simps fun_upd_upd)
qed

lemma reachable_server_done: "reachable server_done"
  using run_reachable [OF reachable_server_created, of "''t1''" _ "\<lambda>k. int k" 0]
  by (simp add: server_created_def server_done_def)

lemma server_done_task:
  "\<exists>t. store server_done ''t1'' = Some t \<and> status t = COMPLETED \<and> progress t = 100"
  by (simp add: server_done_def alice_ops createTask_def updateTaskStatus_def setTaskResult_def)

lemma run_steps:
  "running s taskId = Some ops \<Longrightarrow>
   step\<^sup>*\<^sup>* s \<lparr>store = run_ops clock k taskId ops (store s), running = (running s)(taskId \<mapsto> [])\<rparr>"
proof (induction ops arbitrary: s k)
  case Nil
  then have upd: "(running s)(taskId \<mapsto> []) = running s"
    by (simp add: fun_upd_idem)
  have eq: "\<lparr>store = run_ops clock k taskId [] (store s), running = (running s)(taskId \<mapsto> [])\<rparr> = s"
    by (rule server_state.equality) (simp_all add: upd)
  show ?case unfolding eq by simp
next
  case (Cons op ops)
  let ?s' = "\<lparr>store = apply_op (clock k) taskId op (store s), running = (running s)(taskId \<mapsto> ops)\<rparr>"
  from Cons.prems have st: "step s ?s'" by (intro step.advance)
  have "running ?s' taskId = Some ops" by simp
  from Cons.IH [OF this, of "Suc k"]
  have "step\<^sup>*\<^sup>* ?s' \<lparr>store = run_ops clock k taskId (op # ops) (store s), running = (running s)(taskId \<mapsto> [])\<rparr>"
    by (simp only: run_ops.simps server_state.simps fun_upd_upd)
  with st show ?case by (rule converse_rtranclp_into_rtranclp)
qed

lemma steps_created_done: "step\<^sup>*\<^sup>* server_created server_done"
  using run_steps [of server_created "''t1''" _ "\<lambda>k. int k" 0]
  by (simp add: server_created_def server_done_def)

lemma server_created_task:
  "store server_created ''t1'' =
     Some \<lparr>task_id = ''t1'', status = PENDING, progress = 0, current_step = '''',
        created_at = 0, updated_at = 0, input_data = alice_snapshot,
        result = None, error = None, processing_time = 0\<rparr>"
  by (simp add: server_created_def createTask_def)

subsection \<open>A whole run of the pipeline\<close>

lemma stage2_updates:
  "op \<in> set (fst (stage2 e files)) \<Longrightarrow> \<exists>lbl q. op = Update PROCESSING lbl q"
  using image_loop_updates [of op e]
  by (auto simp: stage2_def Let_def case_prod_beta split: if_splits)

lemma pipeline_stages_updates:
  "op \<in> set (fst (pipeline_stages e taskId userInfo files)) \<Longrightarrow>
   \<exists>lbl q. op = Update PROCESSING lbl q"
  using stage2_updates [of op e files]
  by (auto simp: pipeline_stages_def Let_def case_prod_beta split: if_splits)

lemma pipeline_stages_end:
  "snd (pipeline_stages e taskId userInfo files) =
     (if trim (nickname userInfo) = []
      then Inl (Error ''nickname must not be empty: the safety analysis rests on it'')
      else Inr (build_response e taskId userInfo (snd (stage2 e files))
             (snd (stage3 e userInfo (snd (stage2 e files))))
             (stage4 e userInfo (snd (stage2 e files))
                (fst (stage3 e userInfo (snd (stage2 e files)))))
             (stage5 e userInfo (snd (stage2 e files))
                (stage4 e userInfo (snd (stage2 e files))
                   (fst (stage3 e userInfo (snd (stage2 e files))))))))"
  by (simp add: pipeline_stages_def Let_def case_prod_beta)

lemma run_ops_append:
  "run_ops clock k taskId (xs @ ys) taskStorage =
     run_ops clock (k + length xs) taskId ys (run_ops clock k taskId xs taskStorage)"
  by (induction xs arbitrary: k taskStorage) simp_all

lemma run_updates:
  assumes "taskStorage taskId = Some t"
    and "\<forall>op \<in> set ops. \<exists>lbl q. op = Update PROCESSING lbl q"
  shows "\<exists>t'. run_ops clock k taskId ops taskStorage taskId = Some t'
           \<and> result t' = result t \<and> error t' = error t \<and> created_at t' = created_at t
           \<and> input_data t' = input_data t \<and> task_id t' = task_id t
           \<and> (ops = [] \<longrightarrow> t' = t)
           \<and> (ops \<noteq> [] \<longrightarrow> status t' = PROCESSING
                \<and> (\<exists>lbl. last ops = Update PROCESSING lbl (progress t')))"
  using assms
proof (induction ops arbitrary: k taskStorage t)
  case Nil
  then show ?case by simp
next
  case (Cons op ops)
  from Cons.prems(2) obtain lbl q where op: "op = Update PROCESSING lbl q" by auto
  let ?t1 = "t\<lparr>status := PROCESSING, current_step := lbl, progress := q,
               updated_at := clock k\<rparr>"
  have s1: "apply_op (clock k) taskId op taskStorage taskId = Some ?t1"
    using Cons.prems(1) op by (simp add: updateTaskStatus_def)
  from Cons.prems(2) have rest: "\<forall>op \<in> set ops. \<exists>lbl q. op = Update PROCESSING lbl q"
    by simp
  from Cons.IH [of "apply_op (clock k) taskId op taskStorage" ?t1 "Suc k"] s1 rest op
  show ?case by (cases "ops = []") auto
qed

lemma run_pipeline:
  assumes t: "taskStorage taskId = Some t"
  shows "\<exists>t'. run_ops clock k taskId (processAnalysisTask e taskId userInfo files) taskStorage
              taskId = Some t'
           \<and> created_at t' = created_at t \<and> input_data t' = input_data t
           \<and> task_id t' = task_id t
           \<and> (case snd (pipeline_stages e taskId userInfo files) of
                 Inl err \<Rightarrow>
                   status t' = FAILED \<and> error t' = Some (error_or_message err)
                   \<and> result t' = result t \<and> progress t' = 10
               | Inr res \<Rightarrow>
                   status t' = COMPLETED \<and> result t' = Some res \<and> error t' = error t
                   \<and> progress t' = 100)"
proof -
  obtain ops fin where ps: "pipeline_stages e taskId userInfo files = (ops, fin)"
    by (cases "pipeline_stages e taskId userInfo files")
  have ups: "\<forall>op \<in> set ops. \<exists>lbl q. op = Update PROCESSING lbl q"
    using pipeline_stages_updates [of _ e taskId userInfo files] ps by auto
  from run_updates [of taskStorage taskId t ops clock k] t ups
  obtain t1 where t1: "run_ops clock k taskId ops taskStorage taskId = Some t1"
    "result t1 = result t" "error t1 = error t" "created_at t1 = created_at t"
    "input_data t1 = input_data t" "task_id t1 = task_id t"
    "ops \<noteq> [] \<longrightarrow> (\<exists>lbl. last ops = Update PROCESSING lbl (progress t1))"
    by blast
  show ?thesis
  proof (cases fin)
    case (Inl err)
    have "trim (nickname userInfo) = []"
      using ps Inl pipeline_stages_end [of e taskId userInfo files] by (auto split: if_splits)
    then have "ops = [Update PROCESSING ''start data validation'' 10]"
      using ps by (simp add: pipeline_stages_def)
    with t1(7) have "progress t1 = 10" by simp
    with t1 ps Inl show ?thesis
      by (simp add: processAnalysisTask_def run_ops_append setTaskError_def)
  next
    case (Inr res)
    with t1 ps show ?thesis
      by (simp add: processAnalysisTask_def run_ops_append setTaskResult_def)
  qed
qed

subsection \<open>Runs with failing collaborators\<close>

lemma image_loop_analyses:
  "snd (image_loop e n i files) = map (\<lambda>(j, file). analyse_image e j file) (enumerate i files)"
  by (induction files arbitrary: i) (simp_all add: Let_def case_prod_beta)

lemma stage2_analyses:
  "snd (stage2 e files) =
     map (\<lambda>(j, file). analyse_image e j file) (enumerate 0 (valid_files e files))"
  by (simp add: stage2_def valid_files_def Let_def case_prod_beta image_loop_analyses)

lemma analyse_image_fails:
  "classification_fails (classifyImageWithGPT4o e i file) \<Longrightarrow>
   \<not> an_success (analyse_image e i file)
   \<and> an_classification (analyse_image e i file) = Some ''error''"
  by (auto simp: classification_fails_def analyse_image_def try_analyse_image_def
      error_marker_def split: awaited.splits)

lemma stage2_all_fail:
  assumes "list_all (\<lambda>(i, file). classification_fails (classifyImageWithGPT4o e i file))
             (enumerate 0 (valid_files e files))"
  shows "list_all (\<lambda>a. \<not> an_success a \<and> an_classification a = Some ''error'')
           (snd (stage2 e files))"
  using assms analyse_image_fails [of e]
  by (auto simp: stage2_analyses list_all_iff)

lemma stage4_fails:
  "ragSystemReady e \<longrightarrow> retrieval_fails e (actualQuery_of userInfo (Some q)) \<Longrightarrow>
   stage4 e userInfo imageAnalyses q = RagReport generateFallbackReport"
  by (auto simp: stage4_def callRAGSystem_def retrieval_fails_def Let_def
      split: rag_outcome.splits option.splits)

lemma stage5_fails:
  "synthesis_fails (generateFinalReportWithGPT4o e userInfo imageAnalyses k) \<Longrightarrow>
   stage5 e userInfo imageAnalyses k = generateFallbackReport"
  by (auto simp: stage5_def synthesis_fails_def split: awaited.splits)

lemma stage3_fails:
  "enhancement_fails (enhanceQueryWithAI e userInfo imageAnalyses) \<Longrightarrow>
   \<not> qo_success (rsp_query_optimization
        (build_response e taskId userInfo imageAnalyses (snd (stage3 e userInfo imageAnalyses))
           k r))"
  by (auto simp: enhancement_fails_def stage3_def build_response_def Let_def
      split: awaited.splits)

lemma build_response_fields:
  "rsp_image_analyses (build_response e taskId userInfo imageAnalyses qo k r) = imageAnalyses"
  "rsp_rag_knowledge (build_response e taskId userInfo imageAnalyses qo k r) = k"
  "rsp_final_report (build_response e taskId userInfo imageAnalyses qo k r) = r"
  by (simp_all add: build_response_def Let_def)

lemma degraded_response:
  assumes "collaborators_fail e userInfo files" and "trim (nickname userInfo) \<noteq> []"
  shows "\<exists>res. snd (pipeline_stages e taskId userInfo files) = Inr res \<and> degraded res"
proof -
  let ?as = "snd (stage2 e files)"
  let ?q = "fst (stage3 e userInfo ?as)"
  let ?k = "stage4 e userInfo ?as ?q"
  from assms(1) have
    c: "list_all (\<lambda>(i, file). classification_fails (classifyImageWithGPT4o e i file))
          (enumerate 0 (valid_files e files))"
    and en: "enhancement_fails (enhanceQueryWithAI e userInfo ?as)"
    and rg: "ragSystemReady e \<longrightarrow> retrieval_fails e (actualQuery_of userInfo (Some ?q))"
    and sy: "synthesis_fails (generateFinalReportWithGPT4o e userInfo ?as ?k)"
    by (simp_all add: collaborators_fail_def Let_def)
  have k: "?k = RagReport generateFallbackReport" using rg by (rule stage4_fails)
  have r: "stage5 e userInfo ?as ?k = generateFallbackReport" using sy by (rule stage5_fails)
  show ?thesis
    using assms(2) stage2_all_fail [OF c] stage3_fails [OF en] k r
    by (simp add: pipeline_stages_end degraded_def build_response_fields)
qed

lemma failing_env_fails: "collaborators_fail failing_env alice [photo]"
  by (simp add: collaborators_fail_def valid_files_def photo_def failing_env_def
      classification_fails_def enhancement_fails_def retrieval_fails_def synthesis_fails_def
      Let_def)

lemma step_created_started: "step server_created server_started"
proof -
  have r: "running server_created ''t1'' =
      Some (hd (processAnalysisTask failing_env ''t1'' alice [])
            # tl (processAnalysisTask failing_env ''t1'' alice []))"
    by (simp add: server_created_def alice_ops)
  from step.advance [OF r, of 1] show ?thesis
    by (simp add: server_created_def server_started_def)
qed

lemma processAnalysisTask_shape:
  "\<exists>ops fin. processAnalysisTask e taskId userInfo files =
       Update PROCESSING ''start data validation'' 10 # ops @ [fin]
     \<and> (\<forall>op \<in> set ops. \<exists>lbl q. op = Update PROCESSING lbl q)
     \<and> ((\<exists>res. fin = SetResult res) \<or> (\<exists>err. fin = SetError err))"
proof -
  obtain ops r where ps:
    "pipeline_stages e taskId userInfo files =
       (Update PROCESSING ''start data validation'' 10 # ops, r)"
    using pipeline_shape [of e taskId userInfo files] by blast
  have ups: "\<forall>op \<in> set ops. \<exists>lbl q. op = Update PROCESSING lbl q"
    using pipeline_stages_updates [of _ e taskId userInfo files] ps by auto
  show ?thesis
  proof (cases r)
    case (Inl err)
    with ps ups show ?thesis by (simp add: processAnalysisTask_def)
  next
    case (Inr res)
    with ps ups show ?thesis by (simp add: processAnalysisTask_def)
  qed
qed

lemma processAnalysisVercel_shape:
  "(\<exists>res. processAnalysisVercel ve taskId userInfo = [SetResult res])
   \<or> (\<exists>err. processAnalysisVercel ve taskId userInfo = [SetError err])"
  by (simp add: processAnalysisVercel_def split: awaited.splits)

subsection \<open>The polling loop\<close>

lemma poll_from_done:
  "\<not> i < maxPolls \<Longrightarrow>
   poll_from replies i = \<lparr>outcome = Inl timeout_error, polls = i, waits = []\<rparr>"
  by (simp add: poll_from.simps)

lemma poll_from_return:
  "i < maxPolls \<Longrightarrow> try_poll (replies i) = Inr (Some res) \<Longrightarrow>
   poll_from replies i = \<lparr>outcome = Inr res, polls = Suc i, waits = []\<rparr>"
  by (subst poll_from.simps) simp

lemma poll_from_last_throw:
  "Suc i = maxPolls \<Longrightarrow> try_poll (replies i) = Inl err \<Longrightarrow>
   poll_from replies i = \<lparr>outcome = Inl err, polls = Suc i, waits = []\<rparr>"
  by (subst poll_from.simps) auto

lemma poll_from_last_open:
  "Suc i = maxPolls \<Longrightarrow> try_poll (replies i) = Inr None \<Longrightarrow>
   poll_from replies i = \<lparr>outcome = Inl timeout_error, polls = Suc i, waits = []\<rparr>"
proof -
  assume l: "Suc i = maxPolls" and o: "try_poll (replies i) = Inr None"
  then have a: "i < maxPolls" and b: "\<not> i < maxPolls - Suc 0"
    by simp_all
  have d: "poll_from replies maxPolls =
      \<lparr>outcome = Inl timeout_error, polls = maxPolls, waits = []\<rparr>"
    by (simp add: poll_from_done)
  show ?thesis
    by (subst poll_from.simps) (simp add: a b o l d Let_def)
qed

lemma poll_from_retry:
  "Suc i < maxPolls \<Longrightarrow> try_poll (replies i) = Inl err \<Longrightarrow>
   poll_from replies i =
     (poll_from replies (Suc i))\<lparr>waits := 2000 # waits (poll_from replies (Suc i))\<rparr>"
  by (subst poll_from.simps) (auto simp: Let_def)

lemma poll_from_wait:
  "Suc i < maxPolls \<Longrightarrow> try_poll (replies i) = Inr None \<Longrightarrow>
   poll_from replies i =
     (poll_from replies (Suc i))\<lparr>waits := pollInterval # waits (poll_from replies (Suc i))\<rparr>"
  by (subst poll_from.simps) (auto simp: Let_def)

lemma poll_from_continue:
  assumes "Suc i < maxPolls" and "\<forall>res. try_poll (replies i) \<noteq> Inr (Some res)"
  shows "poll_from replies i =
     (poll_from replies (Suc i))
       \<lparr>waits := wait_after (replies i) # waits (poll_from replies (Suc i))\<rparr>"
proof (cases "try_poll (replies i)")
  case (Inl err)
  with assms(1) show ?thesis by (simp add: poll_from_retry wait_after_def)
next
  case (Inr x)
  with assms(2) have "try_poll (replies i) = Inr None" by (cases x) auto
  with assms(1) show ?thesis by (simp add: poll_from_wait wait_after_def)
qed

lemma poll_from_first_success:
  assumes "k < maxPolls" and "try_poll (replies k) = Inr (Some res)"
    and "\<forall>j. i \<le> j \<and> j < k \<longrightarrow> (\<forall>r. try_poll (replies j) \<noteq> Inr (Some r))"
    and "i \<le> k"
  shows "outcome (poll_from replies i) = Inr res \<and> polls (poll_from replies i) = Suc k
       \<and> waits (poll_from replies i) = map (\<lambda>j. wait_after (replies j)) [i ..< k]"
  using assms(3,4)
proof (induction "k - i" arbitrary: i)
  case 0
  then have "i = k" by simp
  with assms(1,2) show ?case by (simp add: poll_from_return)
next
  case (Suc n)
  then have lt: "i < k" by simp
  with assms(1) have s: "Suc i < maxPolls" by simp
  from Suc.prems(1) lt have no: "\<forall>res. try_poll (replies i) \<noteq> Inr (Some res)" by simp
  have ih: "outcome (poll_from replies (Suc i)) = Inr res
      \<and> polls (poll_from replies (Suc i)) = Suc k
      \<and> waits (poll_from replies (Suc i)) = map (\<lambda>j. wait_after (replies j)) [Suc i ..< k]"
    using Suc.hyps(1) [of "Suc i"] Suc.hyps(2) Suc.prems lt by simp
  from poll_from_continue [of i replies] s no ih lt show ?case
    by (simp add: upt_conv_Cons)
qed

lemma poll_from_exhausted:
  assumes "\<forall>j. i \<le> j \<and> j < maxPolls \<longrightarrow> (\<forall>r. try_poll (replies j) \<noteq> Inr (Some r))"
    and "i < maxPolls"
  shows "polls (poll_from replies i) = maxPolls
       \<and> outcome (poll_from replies i) =
           (case try_poll (replies (maxPolls - 1)) of
              Inl err \<Rightarrow> Inl err
            | Inr x \<Rightarrow> Inl timeout_error)
       \<and> waits (poll_from replies i) = map (\<lambda>j. wait_after (replies j)) [i ..< maxPolls - 1]"
  using assms
proof (induction "maxPolls - Suc i" arbitrary: i)
  case 0
  then have l: "Suc i = maxPolls" by simp
  from "0.prems" have no: "\<forall>res. try_poll (replies i) \<noteq> Inr (Some res)" by simp
  have i: "maxPolls - 1 = i" using l by simp
  show ?case
  proof (cases "try_poll (replies i)")
    case (Inl err)
    with l i show ?thesis by (simp add: poll_from_last_throw)
  next
    case (Inr x)
    with no have "try_poll (replies i) = Inr None" by (cases x) auto
    with l i show ?thesis by (simp add: poll_from_last_open)
  qed
next
  case (Suc n)
  then have s: "Suc i < maxPolls" by simp
  from Suc.prems have no: "\<forall>res. try_poll (replies i) \<noteq> Inr (Some res)" by simp
  have ih: "polls (poll_from replies (Suc i)) = maxPolls
       \<and> outcome (poll_from replies (Suc i)) =
           (case try_poll (replies (maxPolls - 1)) of
              Inl err \<Rightarrow> Inl err
            | Inr x \<Rightarrow> Inl timeout_error)
       \<and> waits (poll_from replies (Suc i)) =
           map (\<lambda>j. wait_after (replies j)) [Suc i ..< maxPolls - 1]"
    using Suc.hyps(1) [of "Suc i"] Suc.hyps(2) Suc.prems s by simp
  from s have "i < maxPolls - 1" by simp
  with poll_from_continue [of i replies] s no ih show ?case
    by (simp add: upt_conv_Cons)
qed

lemma try_poll_success:
  "try_poll reply = Inr (Some res) \<longleftrightarrow>
     (\<exists>b. reply = Body b \<and> st_completed b \<and> \<not> st_failed b \<and> res = st_result b)"
  by (cases reply) (auto simp: try_poll_def)

lemma reports_success_iff:
  "reports_success reply \<longleftrightarrow> (\<exists>res. try_poll reply = Inr (Some res))"
  by (cases reply) (auto simp: reports_success_def try_poll_def)

lemma wait_after_kind:
  "\<not> reports_failure reply \<Longrightarrow>
   wait_after reply = (case reply of Body b \<Rightarrow> 5000 | _ \<Rightarrow> 2000)"
  by (cases reply) (auto simp: wait_after_def reports_failure_def try_poll_def pollInterval_def)

lemma last_outcome_kind:
  "\<not> reports_failure reply \<Longrightarrow> \<not> reports_success reply \<Longrightarrow>
   (case try_poll reply of Inl err \<Rightarrow> Inl err | Inr x \<Rightarrow> Inl timeout_error) =
   (case reply of
      FetchThrows err \<Rightarrow> Inl err
    | NotOk code text \<Rightarrow>
        Inl (Error (''status query failed: '' @ show_nat code @ '' '' @ text))
    | Body b \<Rightarrow> Inl timeout_error)"
  by (cases reply) (auto simp: reports_failure_def reports_success_def try_poll_def)

lemma map_wait_after:
  assumes "\<forall>i < maxPolls. \<not> reports_failure (replies i)" and "n \<le> maxPolls"
  shows "map (\<lambda>j. wait_after (replies j)) [0 ..< n] =
         map (\<lambda>j. case replies j of Body b \<Rightarrow> 5000 | _ \<Rightarrow> 2000) [0 ..< n]"
  using assms by (auto simp: wait_after_kind)

lemma replies_done_ok: "\<forall>i < maxPolls. \<not> reports_failure (replies_done i)"
  by (simp add: replies_done_def reports_failure_def in_progress_def)

lemma try_poll_down:
  "try_poll (replies_down i) = Inl (Error ''status query failed: 500 Internal Server Error'')"
proof -
  have "show_nat 500 = ''500''" by code_simp
  then show ?thesis by (simp add: try_poll_def replies_down_def)
qed

subsection \<open>Retention sweep\<close>

text \<open>
  C9. After a sweep at time \<open>now\<close>, a lookup of a task created more than one hour
  (3600000 ms) before \<open>now\<close> finds nothing, whatever the status of the task, in-flight
  \<open>processing\<close> included; a later store call of its pipeline does not bring it back; a
  record that is not older than the window is kept as it was.
\<close>

theorem cleanupOldTasks_removes_old:
  assumes "taskStorage taskId = Some t" and "created_at t < now - 3600000"
  shows "getTask taskId (cleanupOldTasks now taskStorage) = None
       \<and> getTask taskId (apply_op later taskId op (cleanupOldTasks now taskStorage)) = None
       \<and> (\<forall>other t'. taskStorage other = Some t' \<and> \<not> created_at t' < now - 3600000 \<longrightarrow>
             getTask other (cleanupOldTasks now taskStorage) = Some t')"
proof -
  have gone: "cleanupOldTasks now taskStorage taskId = None"
    using assms by (simp add: cleanupOldTasks_def)
  from gone apply_op_absent [of "cleanupOldTasks now taskStorage" taskId later op]
  show ?thesis
    by (simp add: getTask_def cleanupOldTasks_def)
qed

theorem cleanupOldTasks_removes_old_witness:
  "map_option status (store server_started ''t1'') = Some PROCESSING
   \<and> map_option created_at (store server_started ''t1'') = Some 0
   \<and> getTask ''t1'' (cleanupOldTasks 3600001 (store server_started)) = None
   \<and> getTask ''t1'' (cleanupOldTasks 3600000 (store server_started)) \<noteq> None"
proof -
  have t: "store server_started ''t1'' =
      Some \<lparr>task_id = ''t1'', status = PROCESSING, progress = 10,
        current_step = ''start data validation'',
        created_at = 0, updated_at = 1, input_data = alice_snapshot,
        result = None, error = None, processing_time = 0\<rparr>"
    by (simp add: server_started_def alice_ops createTask_def updateTaskStatus_def)
  have kept: "getTask ''t1'' (cleanupOldTasks 3600000 (store server_started)) \<noteq> None"
    by (simp add: getTask_def cleanupOldTasks_def t)
  from cleanupOldTasks_removes_old
    [of "store server_started" "''t1''" _ 3600001, THEN conjunct1] kept t
  show ?thesis by simp
qed

subsection \<open>Lifecycle invariants\<close>

text \<open>
  C7. In every reachable state of the server, a task record has \<open>result\<close> set exactly
  when its status is \<open>completed\<close> and \<open>error\<close> set exactly when its status is
  \<open>failed\<close>: exactly one of the two is non-null in a terminal status, and both are null
  in \<open>pending\<close> and \<open>processing\<close>.
\<close>

theorem result_xor_error:
  assumes "reachable s" and "store s taskId = Some t"
  shows "(if terminal (status t) then (result t \<noteq> None) \<noteq> (error t \<noteq> None)
          else result t = None \<and> error t = None)
       \<and> (result t \<noteq> None) = (status t = COMPLETED)
       \<and> (error t \<noteq> None) = (status t = FAILED)"
proof -
  from invariantD [OF reachable_invariant [OF assms(1)] assms(2)]
  obtain ops where "task_ok t ops" by blast
  then show ?thesis
    by (cases "status t") (auto simp: task_ok_def terminal_def)
qed

theorem result_xor_error_witness:
  "reachable server_done
   \<and> terminal (status (the (store server_done ''t1'')))
   \<and> result (the (store server_done ''t1'')) \<noteq> None
   \<and> error (the (store server_done ''t1'')) = None"
proof -
  obtain t where t: "store server_done ''t1'' = Some t" "status t = COMPLETED"
    using server_done_task by blast
  from result_xor_error [OF reachable_server_done t(1)] t reachable_server_done
  show ?thesis by (simp add: terminal_def)
qed

text \<open>
  C8. Once a task of a reachable state is \<open>completed\<close> or \<open>failed\<close>, no sequence of
  steps of the server changes its status: as long as the record is in the store, it is
  the same record.
\<close>

theorem terminal_absorbing:
  assumes "reachable s" and "store s taskId = Some t" and "terminal (status t)"
    and "step\<^sup>*\<^sup>* s s'" and "store s' taskId = Some t'"
  shows "status t' = status t \<and> t' = t"
  using steps_task [OF assms(1,2,4)] assms(3,5) by auto

theorem terminal_absorbing_witness:
  "reachable server_done
   \<and> terminal (status (the (store server_done ''t1'')))
   \<and> step\<^sup>*\<^sup>* server_done
        \<lparr>store = cleanupOldTasks 1000 (store server_done), running = running server_done\<rparr>
   \<and> the (cleanupOldTasks 1000 (store server_done) ''t1'') = the (store server_done ''t1'')
   \<and> cleanupOldTasks 1000 (store server_done) ''t1'' \<noteq> None"
proof -
  let ?s' = "\<lparr>store = cleanupOldTasks 1000 (store server_done), running = running server_done\<rparr>"
  obtain t where t: "store server_done ''t1'' = Some t" "status t = COMPLETED"
    using server_done_task by blast
  have tm: "terminal (status t)" using t by (simp add: terminal_def)
  have sts: "step\<^sup>*\<^sup>* server_done ?s'"
    by (rule r_into_rtranclp) (rule step.sweep)
  have kept: "\<exists>t'. store ?s' ''t1'' = Some t'"
    by (simp add: server_done_def alice_ops createTask_def updateTaskStatus_def
        setTaskResult_def cleanupOldTasks_def)
  then obtain t' where t': "store ?s' ''t1'' = Some t'" by blast
  from terminal_absorbing [OF reachable_server_done t(1) tm sts t'] t t' tm sts
    reachable_server_done
  show ?thesis by simp
qed

text \<open>
  C2. \<open>progress\<close> is 0 in the record that \<^verbatim>\<open>createTask\<close> makes. For every task of a
  reachable state it lies in \<open>[0, 100]\<close> and is 100 exactly when the status is
  \<open>completed\<close>; along any sequence of steps of the server it never decreases.
\<close>

theorem progress_monotone_bounded:
  assumes "reachable s" and "store s taskId = Some t"
    and "step\<^sup>*\<^sup>* s s'" and "store s' taskId = Some t'"
  shows "progress (the (createTask taskId' now d taskStorage taskId')) = 0
       \<and> 0 \<le> progress t \<and> progress t \<le> progress t' \<and> progress t' \<le> 100
       \<and> (progress t' = 100 \<longleftrightarrow> status t' = COMPLETED)"
proof -
  have r': "reachable s'" using assms(3,1) by (rule steps_reachable)
  from invariantD [OF reachable_invariant [OF assms(1)] assms(2)]
  obtain ops where ok: "task_ok t ops" by blast
  from invariantD [OF reachable_invariant [OF r'] assms(4)]
  obtain ops' where ok': "task_ok t' ops'" by blast
  have a: "0 \<le> progress t" using ok by (cases "status t") (auto simp: task_ok_def)
  have b: "progress t' \<le> 100 \<and> (progress t' = 100 \<longleftrightarrow> status t' = COMPLETED)"
    using ok' by (cases "status t'") (auto simp: task_ok_def)
  have c: "progress t \<le> progress t'"
    using steps_task [OF assms(1,2,3)] assms(4) by auto
  show ?thesis using a b c by (simp add: createTask_def)
qed

theorem progress_monotone_bounded_witness:
  "reachable server_created
   \<and> step\<^sup>*\<^sup>* server_created server_done
   \<and> progress (the (store server_created ''t1'')) = 0
   \<and> progress (the (store server_done ''t1'')) = 100
   \<and> status (the (store server_done ''t1'')) = COMPLETED"
proof -
  obtain t' where t': "store server_done ''t1'' = Some t'" "status t' = COMPLETED"
    "progress t' = 100"
    using server_done_task by blast
  from progress_monotone_bounded [OF reachable_server_created server_created_task
      steps_created_done t'(1)] t' reachable_server_created steps_created_done
  show ?thesis by (simp add: server_created_task)
qed

subsection \<open>Graceful degradation\<close>

text \<open>
  C1. For a task that is in the store, a run of \<^verbatim>\<open>processAnalysisTask\<close> ends with the
  task \<open>completed\<close> exactly when the nickname is not blank, whatever each collaborator
  call returns or throws. It ends \<open>failed\<close> exactly when the \<^verbatim>\<open>try\<close> block throws, which
  only the stage-1 check of the nickname does; the outer \<^verbatim>\<open>catch\<close> records that error
  with \<^verbatim>\<open>setTaskError\<close>. When every collaborator call fails or times out, the result of
  the completed task is made of fallback values: an error marker for every image, a query
  optimisation that did not succeed, and the fallback report for retrieval and synthesis.
\<close>

theorem pipeline_completes_unless_validation_fails:
  assumes "taskStorage taskId = Some t"
  shows "\<exists>t'. run_ops clock k taskId (processAnalysisTask e taskId userInfo uploadedFiles)
              taskStorage taskId = Some t'
           \<and> (status t' = COMPLETED) = (trim (nickname userInfo) \<noteq> [])
           \<and> (status t' = FAILED) = (trim (nickname userInfo) = [])
           \<and> (status t' = FAILED) =
               (\<exists>err. snd (pipeline_stages e taskId userInfo uploadedFiles) = Inl err)
           \<and> (status t' = FAILED \<longrightarrow>
                (\<exists>err. snd (pipeline_stages e taskId userInfo uploadedFiles) = Inl err
                   \<and> error t' = Some (error_or_message err)))
           \<and> (status t' = COMPLETED \<longrightarrow>
                progress t' = 100
                \<and> (\<exists>res. result t' = Some res
                      \<and> (collaborators_fail e userInfo uploadedFiles \<longrightarrow> degraded res)))"
proof -
  from run_pipeline [of taskStorage taskId t clock k e userInfo uploadedFiles] assms
  obtain t' where
    t': "run_ops clock k taskId (processAnalysisTask e taskId userInfo uploadedFiles)
           taskStorage taskId = Some t'"
    and fin: "case snd (pipeline_stages e taskId userInfo uploadedFiles) of
                 Inl err \<Rightarrow>
                   status t' = FAILED \<and> error t' = Some (error_or_message err)
                   \<and> result t' = result t \<and> progress t' = 10
               | Inr res \<Rightarrow>
                   status t' = COMPLETED \<and> result t' = Some res \<and> error t' = error t
                   \<and> progress t' = 100"
    by blast
  show ?thesis
  proof (cases "trim (nickname userInfo) = []")
    case True
    with fin t' show ?thesis by (auto simp: pipeline_stages_end)
  next
    case False
    have "collaborators_fail e userInfo uploadedFiles \<longrightarrow>
          (\<exists>res. snd (pipeline_stages e taskId userInfo uploadedFiles) = Inr res \<and> degraded res)"
      using degraded_response [of e userInfo uploadedFiles taskId] False by blast
    with False fin t' show ?thesis by (auto simp: pipeline_stages_end)
  qed
qed

theorem pipeline_completes_unless_validation_fails_witness:
  "(createTask ''t1'' 0 alice_snapshot Map.empty :: (snapshot, response) taskStorage) ''t1''
     \<noteq> None
   \<and> collaborators_fail failing_env alice [photo]
   \<and> status (the (run_ops (\<lambda>k. int k) 0 ''t1''
        (processAnalysisTask failing_env ''t1'' alice [photo])
        (createTask ''t1'' 0 alice_snapshot Map.empty) ''t1'')) = COMPLETED
   \<and> degraded (the (result (the (run_ops (\<lambda>k. int k) 0 ''t1''
        (processAnalysisTask failing_env ''t1'' alice [photo])
        (createTask ''t1'' 0 alice_snapshot Map.empty) ''t1''))))
   \<and> status (the (run_ops (\<lambda>k. int k) 0 ''t1''
        (processAnalysisTask failing_env ''t1'' blank [photo])
        (createTask ''t1'' 0 alice_snapshot Map.empty) ''t1'')) = FAILED"
proof -
  let ?st = "createTask ''t1'' 0 alice_snapshot Map.empty :: (snapshot, response) taskStorage"
  have c: "\<exists>t. ?st ''t1'' = Some t" by (simp add: createTask_def)
  then obtain t where t: "?st ''t1'' = Some t" by blast
  have na: "trim (nickname alice) \<noteq> []" by (simp add: alice_def trim_alice)
  have nb: "trim (nickname blank) = []" by (simp add: blank_def trim_blank)
  let ?ra = "run_ops (\<lambda>k. int k) 0 ''t1''
        (processAnalysisTask failing_env ''t1'' alice [photo]) ?st ''t1''"
  let ?rb = "run_ops (\<lambda>k. int k) 0 ''t1''
        (processAnalysisTask failing_env ''t1'' blank [photo]) ?st ''t1''"
  from pipeline_completes_unless_validation_fails
    [of ?st "''t1''" t "\<lambda>k. int k" 0 failing_env alice "[photo]"] t na failing_env_fails
  have a: "status (the ?ra) = COMPLETED \<and> degraded (the (result (the ?ra)))"
    by auto
  from pipeline_completes_unless_validation_fails
    [of ?st "''t1''" t "\<lambda>k. int k" 0 failing_env blank "[photo]"] t nb
  have b: "status (the ?rb) = FAILED"
    by auto
  from a b c failing_env_fails show ?thesis by simp
qed

text \<open>
  C4. In \<^verbatim>\<open>src/server.js\<close> no step takes a task from \<open>pending\<close> to a terminal status: a
  run of \<^verbatim>\<open>processAnalysisTask\<close> first sets \<open>processing\<close> (progress 10), keeps
  \<open>processing\<close> in every later call but the last, and ends with the one terminal write.
  A run of \<^verbatim>\<open>processAnalysisVercel\<close> of \<^verbatim>\<open>src/api/server.js\<close> is the terminal write alone.
\<close>

theorem processing_precedes_terminal:
  assumes "reachable s" and "store s taskId = Some t" and "status t = PENDING"
    and "step s s'" and "store s' taskId = Some t'"
  shows "(status t' = PENDING \<or> status t' = PROCESSING)
       \<and> (\<exists>ops fin. processAnalysisTask e tid userInfo files =
              Update PROCESSING ''start data validation'' 10 # ops @ [fin]
            \<and> (\<forall>op \<in> set ops. \<exists>lbl q. op = Update PROCESSING lbl q)
            \<and> ((\<exists>res. fin = SetResult res) \<or> (\<exists>err. fin = SetError err)))
       \<and> ((\<exists>res. processAnalysisVercel ve tid userInfo = [SetResult res])
          \<or> (\<exists>err. processAnalysisVercel ve tid userInfo = [SetError err]))"
proof -
  from step_task [OF reachable_invariant [OF assms(1)] assms(4) assms(2)] assms(3,5)
  have "status t' = PENDING \<or> status t' = PROCESSING" by auto
  with processAnalysisTask_shape [of e tid userInfo files]
    processAnalysisVercel_shape [of ve tid userInfo]
  show ?thesis by blast
qed

theorem processing_precedes_terminal_witness:
  "reachable server_created
   \<and> status (the (store server_created ''t1'')) = PENDING
   \<and> step server_created server_started
   \<and> status (the (store server_started ''t1'')) = PROCESSING"
proof -
  have t': "store server_started ''t1'' =
      Some \<lparr>task_id = ''t1'', status = PROCESSING, progress = 10,
        current_step = ''start data validation'',
        created_at = 0, updated_at = 1, input_data = alice_snapshot,
        result = None, error = None, processing_time = 0\<rparr>"
    by (simp add: server_started_def alice_ops createTask_def updateTaskStatus_def)
  from processing_precedes_terminal [OF reachable_server_created server_created_task _
      step_created_started t']
    reachable_server_created step_created_started
  show ?thesis by (simp add: server_created_task t')
qed

text \<open>
  In \<^verbatim>\<open>src/api/server.js\<close> a task goes from \<open>pending\<close> to \<open>completed\<close> in one store
  call, never \<open>processing\<close>.
\<close>

theorem vercel_skips_processing:
  "status (the ((createTask ''t1'' 0 alice Map.empty :: (userInfo, vercel_result) taskStorage)
             ''t1'')) = PENDING
   \<and> length (processAnalysisVercel vercel_env_up ''t1'' alice) = 1
   \<and> status (the (apply_op 5 ''t1'' (hd (processAnalysisVercel vercel_env_up ''t1'' alice))
                   (createTask ''t1'' 0 alice Map.empty) ''t1'')) = COMPLETED"
  by (simp add: processAnalysisVercel_def vercel_env_up_def createTask_def setTaskResult_def)

subsection \<open>Failed tasks\<close>

text \<open>
  C10. On a task that is in the store, \<^verbatim>\<open>setTaskError\<close> writes \<open>error\<close>, \<open>status\<close>,
  \<open>processing_time\<close> and \<open>updated_at\<close> and nothing else: \<open>progress\<close>,
  \<open>current_step\<close>, \<open>result\<close>, \<open>input_data\<close>, \<open>created_at\<close> and the identifier are as
  before. A run of \<^verbatim>\<open>processAnalysisTask\<close> that ends \<open>failed\<close> therefore leaves the task
  with the progress of its last update, 10, neither 0 nor 100, and the status endpoint
  reports that value.
\<close>

theorem setTaskError_frame:
  assumes "taskStorage taskId = Some t"
  shows "setTaskError taskId err now taskStorage =
           taskStorage(taskId \<mapsto>
             t\<lparr>error := Some (error_or_message err), status := FAILED,
               processing_time := now - created_at t, updated_at := now\<rparr>)
       \<and> (\<exists>t'. setTaskError taskId err now taskStorage taskId = Some t'
             \<and> progress t' = progress t \<and> current_step t' = current_step t
             \<and> result t' = result t \<and> input_data t' = input_data t
             \<and> created_at t' = created_at t \<and> task_id t' = task_id t)
       \<and> (\<exists>t'. run_ops clock k taskId (processAnalysisTask e taskId userInfo files)
                 taskStorage taskId = Some t'
             \<and> (status t' = FAILED \<longrightarrow>
                  progress t' = 10
                  \<and> sp_progress (snd (report_status taskId
                       (run_ops clock k taskId (processAnalysisTask e taskId userInfo files)
                          taskStorage))) = Some 10))"
proof -
  have a: "setTaskError taskId err now taskStorage =
           taskStorage(taskId \<mapsto>
             t\<lparr>error := Some (error_or_message err), status := FAILED,
               processing_time := now - created_at t, updated_at := now\<rparr>)"
    using assms by (simp add: setTaskError_def)
  from run_pipeline [of taskStorage taskId t clock k e userInfo files] assms
  obtain t' where t': "run_ops clock k taskId (processAnalysisTask e taskId userInfo files)
                 taskStorage taskId = Some t'"
    and fin: "case snd (pipeline_stages e taskId userInfo files) of
                 Inl err \<Rightarrow>
                   status t' = FAILED \<and> error t' = Some (error_or_message err)
                   \<and> result t' = result t \<and> progress t' = 10
               | Inr res \<Rightarrow>
                   status t' = COMPLETED \<and> result t' = Some res \<and> error t' = error t
                   \<and> progress t' = 100"
    by blast
  have p: "status t' = FAILED \<longrightarrow> progress t' = 10"
    using fin by (cases "snd (pipeline_stages e taskId userInfo files)") auto
  have q: "status t' = FAILED \<longrightarrow>
      sp_progress (snd (report_status taskId
        (run_ops clock k taskId (processAnalysisTask e taskId userInfo files) taskStorage)))
      = Some (progress t')"
    using t' by (simp add: report_status_def getTask_def base_payload_def)
  show ?thesis using a t' p q by simp
qed

theorem setTaskError_frame_witness:
  "(createTask ''t1'' 0 alice_snapshot Map.empty :: (snapshot, response) taskStorage) ''t1''
     \<noteq> None
   \<and> status (the (run_ops (\<lambda>k. int k) 0 ''t1''
        (processAnalysisTask failing_env ''t1'' blank [])
        (createTask ''t1'' 0 alice_snapshot Map.empty) ''t1'')) = FAILED
   \<and> progress (the (run_ops (\<lambda>k. int k) 0 ''t1''
        (processAnalysisTask failing_env ''t1'' blank [])
        (createTask ''t1'' 0 alice_snapshot Map.empty) ''t1'')) = 10"
proof -
  let ?st = "createTask ''t1'' 0 alice_snapshot Map.empty :: (snapshot, response) taskStorage"
  let ?r = "run_ops (\<lambda>k. int k) 0 ''t1'' (processAnalysisTask failing_env ''t1'' blank []) ?st"
  have c: "\<exists>t. ?st ''t1'' = Some t" by (simp add: createTask_def)
  then obtain t where t: "?st ''t1'' = Some t" by blast
  have f: "status (the (?r ''t1'')) = FAILED"
    by (simp add: processAnalysisTask_def pipeline_stages_def blank_def trim_blank
        createTask_def updateTaskStatus_def setTaskError_def)
  from setTaskError_frame
    [of ?st "''t1''" t "Error ''boom''" 7 "\<lambda>k. int k" 0 failing_env blank "[]"] t f
  have "progress (the (?r ''t1'')) = 10" by auto
  with c f show ?thesis by simp
qed

text \<open>
  C5. For a failed task the status endpoint of \<^verbatim>\<open>src/server.js\<close> answers 200 with
  \<^verbatim>\<open>completed: true\<close>, \<^verbatim>\<open>failed: true\<close>, the task's \<open>error\<close>, its \<open>processing_time\<close>
  and the fallback report. The endpoint of \<^verbatim>\<open>src/api/server.js\<close> answers with
  \<^verbatim>\<open>completed: true\<close>, \<^verbatim>\<open>failed: true\<close> and the task's \<open>error\<close>, and without a
  \<^verbatim>\<open>fallback_report\<close>.
\<close>

theorem failed_status_payload:
  assumes "getTask taskId taskStorage = Some t" and "status t = FAILED"
  shows "fst (report_status taskId taskStorage) = 200
       \<and> sp_completed (snd (report_status taskId taskStorage)) = Some True
       \<and> sp_failed (snd (report_status taskId taskStorage)) = Some True
       \<and> sp_error (snd (report_status taskId taskStorage)) = error t
       \<and> sp_processing_time (snd (report_status taskId taskStorage)) = Some (processing_time t)
       \<and> sp_fallback_report (snd (report_status taskId taskStorage))
           = Some generateFallbackReport
       \<and> fst (report_status_vercel taskId taskStorage) = 200
       \<and> sp_completed (snd (report_status_vercel taskId taskStorage)) = Some True
       \<and> sp_failed (snd (report_status_vercel taskId taskStorage)) = Some True
       \<and> sp_error (snd (report_status_vercel taskId taskStorage)) = error t
       \<and> sp_fallback_report (snd (report_status_vercel taskId taskStorage)) = None"
  using assms
  by (simp add: report_status_def report_status_vercel_def base_payload_def)

theorem failed_status_payload_witness:
  "status (the (getTask ''t1'' (failed_store alice_snapshot :: (snapshot, response) taskStorage)))
     = FAILED
   \<and> sp_error (snd (report_status ''t1''
        (failed_store alice_snapshot :: (snapshot, response) taskStorage)))
       = Some (ErrorText ''boom'')
   \<and> sp_processing_time (snd (report_status ''t1''
        (failed_store alice_snapshot :: (snapshot, response) taskStorage))) = Some 7
   \<and> sp_fallback_report (snd (report_status ''t1''
        (failed_store alice_snapshot :: (snapshot, response) taskStorage)))
       = Some generateFallbackReport"
proof -
  let ?st = "failed_store alice_snapshot :: (snapshot, response) taskStorage"
  have g: "getTask ''t1'' ?st =
      Some \<lparr>task_id = ''t1'', status = FAILED, progress = 0, current_step = '''',
        created_at = 0, updated_at = 7, input_data = alice_snapshot,
        result = None, error = Some (ErrorText ''boom''), processing_time = 7\<rparr>"
    by (simp add: failed_store_def getTask_def setTaskError_def createTask_def
        error_or_message_def)
  from failed_status_payload [OF g] g show ?thesis by simp
qed

text \<open>
  The answer of \<^verbatim>\<open>src/api/server.js\<close> for a failed task has neither \<^verbatim>\<open>fallback_report\<close>
  nor \<^verbatim>\<open>processing_time\<close>.
\<close>

theorem vercel_failed_payload_lacks_fallback:
  "status (the (getTask ''t1'' (failed_store alice :: (userInfo, vercel_result) taskStorage)))
     = FAILED
   \<and> sp_fallback_report (snd (report_status_vercel ''t1''
        (failed_store alice :: (userInfo, vercel_result) taskStorage))) = None
   \<and> sp_processing_time (snd (report_status_vercel ''t1''
        (failed_store alice :: (userInfo, vercel_result) taskStorage))) = None"
  by (simp add: failed_store_def getTask_def setTaskError_def createTask_def
      report_status_vercel_def base_payload_def)

subsection \<open>Submission\<close>

text \<open>
  C3. In \<^verbatim>\<open>src/server.js\<close> a submission whose nickname is missing, empty or made of white
  space only is answered with status 400 and \<^verbatim>\<open>{success: false, error}\<close>; no task is
  created: the store is unchanged and no pipeline is scheduled. The endpoint of
  \<^verbatim>\<open>src/api/server.js\<close> makes no such check: it creates the task and answers with
  \<^verbatim>\<open>success: true\<close>.
\<close>

theorem blank_nickname_rejected:
  assumes "trim (or_else (body_nickname req) []) = []"
  shows "sub_http_status (fst (generate_warning_report req taskId now taskStorage)) = 400
       \<and> \<not> sub_success (fst (generate_warning_report req taskId now taskStorage))
       \<and> sub_error (fst (generate_warning_report req taskId now taskStorage)) \<noteq> None
       \<and> sub_task_id (fst (generate_warning_report req taskId now taskStorage)) = None
       \<and> fst (snd (generate_warning_report req taskId now taskStorage)) = taskStorage
       \<and> snd (snd (generate_warning_report req taskId now taskStorage)) = None
       \<and> sub_success (fst (generate_warning_report_vercel req taskId now vercelStorage))
       \<and> fst (snd (generate_warning_report_vercel req taskId now vercelStorage)) =
           createTask taskId now (read_userInfo req) vercelStorage"
  using assms
  by (simp add: generate_warning_report_def generate_warning_report_vercel_def
      read_userInfo_def Let_def)

theorem blank_nickname_rejected_witness:
  "trim (or_else (body_nickname blank_request) []) = []
   \<and> sub_http_status (fst (generate_warning_report blank_request ''t2'' 5
        (store server_created))) = 400
   \<and> fst (snd (generate_warning_report blank_request ''t2'' 5 (store server_created)))
       = store server_created"
proof -
  have b: "trim (or_else (body_nickname blank_request) []) = []"
    by (simp add: blank_request_def or_else_def trim_blank lit_def [symmetric])
  from blank_nickname_rejected [OF b, of "''t2''" 5 "store server_created"] b
  show ?thesis by simp
qed

text \<open>
  \<^verbatim>\<open>src/api/server.js\<close>, given a nickname of two spaces: status 200, \<^verbatim>\<open>success: true\<close>,
  and a task in the store that was empty.
\<close>

theorem vercel_accepts_blank_nickname:
  "trim (or_else (body_nickname blank_request) []) = []
   \<and> sub_http_status (fst (generate_warning_report_vercel blank_request ''t1'' 0 Map.empty))
       = 200
   \<and> sub_success (fst (generate_warning_report_vercel blank_request ''t1'' 0 Map.empty))
   \<and> fst (snd (generate_warning_report_vercel blank_request ''t1'' 0 Map.empty)) ''t1''
       \<noteq> None
   \<and> (Map.empty :: (userInfo, vercel_result) taskStorage) ''t1'' = None"
  by (simp add: generate_warning_report_vercel_def blank_request_def or_else_def trim_blank
      createTask_def Let_def)

subsection \<open>Client poller\<close>

text \<open>
  C6. On replies none of which reports a failed task, \<^verbatim>\<open>pollTaskStatus\<close> makes at most 60
  polls. It returns the result of the first reply that reports the task completed and not
  failed, and stops there. Until then it waits 5000 ms after a reply whose task is still
  in progress, 2000 ms after a poll that failed, and polls again. When none of the 60
  replies reports completion it throws after the 60th poll: the error of that poll when
  the poll failed, the timeout error when the poll brought a reply still in progress.
\<close>

theorem pollTaskStatus_protocol:
  assumes "\<forall>i < maxPolls. \<not> reports_failure (replies i)"
  shows "polls (pollTaskStatus replies) \<le> 60
       \<and> (\<forall>k b. k < 60 \<and> replies k = Body b \<and> st_completed b \<and> \<not> st_failed b
                 \<and> (\<forall>j < k. \<not> reports_success (replies j)) \<longrightarrow>
              outcome (pollTaskStatus replies) = Inr (st_result b)
              \<and> polls (pollTaskStatus replies) = k + 1
              \<and> waits (pollTaskStatus replies) =
                  map (\<lambda>j. case replies j of Body b \<Rightarrow> 5000 | _ \<Rightarrow> 2000) [0 ..< k])
       \<and> ((\<forall>j < 60. \<not> reports_success (replies j)) \<longrightarrow>
              polls (pollTaskStatus replies) = 60
              \<and> waits (pollTaskStatus replies) =
                  map (\<lambda>j. case replies j of Body b \<Rightarrow> 5000 | _ \<Rightarrow> 2000) [0 ..< 59]
              \<and> outcome (pollTaskStatus replies) =
                  (case replies 59 of
                     FetchThrows err \<Rightarrow> Inl err
                   | NotOk code text \<Rightarrow>
                       Inl (Error (''status query failed: '' @ show_nat code @ '' '' @ text))
                   | Body b \<Rightarrow> Inl timeout_error))"
proof -
  have first: "outcome (pollTaskStatus replies) = Inr (st_result b)
              \<and> polls (pollTaskStatus replies) = k + 1
              \<and> waits (pollTaskStatus replies) =
                  map (\<lambda>j. case replies j of Body b \<Rightarrow> 5000 | _ \<Rightarrow> 2000) [0 ..< k]"
    if k: "k < 60" and b: "replies k = Body b" "st_completed b" "\<not> st_failed b"
      and before: "\<forall>j < k. \<not> reports_success (replies j)" for k b
  proof -
    have s: "try_poll (replies k) = Inr (Some (st_result b))"
      using b by (simp add: try_poll_success)
    have no: "\<forall>j. 0 \<le> j \<and> j < k \<longrightarrow> (\<forall>r. try_poll (replies j) \<noteq> Inr (Some r))"
      using before by (simp add: reports_success_iff)
    have km: "k < maxPolls" using k by (simp add: maxPolls_def)
    from poll_from_first_success [of k replies "st_result b" 0] km s no
      map_wait_after [OF assms, of k]
    show ?thesis by (simp add: pollTaskStatus_def)
  qed
  have none: "polls (pollTaskStatus replies) = 60
              \<and> waits (pollTaskStatus replies) =
                  map (\<lambda>j. case replies j of Body b \<Rightarrow> 5000 | _ \<Rightarrow> 2000) [0 ..< 59]
              \<and> outcome (pollTaskStatus replies) =
                  (case replies 59 of
                     FetchThrows err \<Rightarrow> Inl err
                   | NotOk code text \<Rightarrow>
                       Inl (Error (''status query failed: '' @ show_nat code @ '' '' @ text))
                   | Body b \<Rightarrow> Inl timeout_error)"
    if nos: "\<forall>j < 60. \<not> reports_success (replies j)"
  proof -
    have no: "\<forall>j. 0 \<le> j \<and> j < maxPolls \<longrightarrow> (\<forall>r. try_poll (replies j) \<noteq> Inr (Some r))"
      using nos by (simp add: reports_success_iff maxPolls_def)
    have l: "\<not> reports_failure (replies 59)" "\<not> reports_success (replies 59)"
      using assms nos by (simp_all add: maxPolls_def)
    from poll_from_exhausted [of 0 replies] no map_wait_after [OF assms, of 59]
      last_outcome_kind [OF l]
    show ?thesis by (simp add: pollTaskStatus_def maxPolls_def)
  qed
  have le: "polls (pollTaskStatus replies) \<le> 60"
  proof (cases "\<exists>k. k < 60 \<and> reports_success (replies k)")
    case True
    then obtain k where k: "k < 60 \<and> reports_success (replies k)"
      and least: "\<forall>j < k. \<not> (j < 60 \<and> reports_success (replies j))"
      using exists_least_iff [of "\<lambda>k. k < 60 \<and> reports_success (replies k)"] by blast
    from k obtain b where b: "replies k = Body b" "st_completed b" "\<not> st_failed b"
      by (auto simp: reports_success_iff try_poll_success)
    from least k have "\<forall>j < k. \<not> reports_success (replies j)" by auto
    from first [OF _ b this] k show ?thesis by simp
  next
    case False
    then have "\<forall>j < 60. \<not> reports_success (replies j)" by blast
    from none [OF this] show ?thesis by simp
  qed
  from le first none show ?thesis by blast
qed

theorem pollTaskStatus_protocol_witness:
  "list_all (\<lambda>i. \<not> reports_failure (replies_done i)) [0 ..< 60]
   \<and> outcome (pollTaskStatus replies_done) = Inr 42
   \<and> polls (pollTaskStatus replies_done) = 4
   \<and> waits (pollTaskStatus replies_done) = [5000, 5000, 5000]"
proof -
  have before: "\<forall>j < 3. \<not> reports_success (replies_done j)"
    by (simp add: replies_done_def reports_success_def in_progress_def)
  have at: "replies_done 3 =
      Body \<lparr>st_completed = True, st_failed = False, st_error = [], st_result = 42\<rparr>"
    by (simp add: replies_done_def)
  have upt: "[0 ..< 3] = [0, 1, Suc (Suc 0)]" by (simp add: upt_conv_Cons)
  note th = pollTaskStatus_protocol [OF replies_done_ok]
  note first = th [THEN conjunct2, THEN conjunct1, rule_format,
      of 3 "\<lparr>st_completed = True, st_failed = False, st_error = [], st_result = 42\<rparr>"]
  have "outcome (pollTaskStatus replies_done) = Inr 42
      \<and> polls (pollTaskStatus replies_done) = 3 + 1
      \<and> waits (pollTaskStatus replies_done) =
          map (\<lambda>j. case replies_done j of Body b \<Rightarrow> 5000 | _ \<Rightarrow> 2000) [0 ..< 3]"
    using first at before by simp
  moreover have "list_all (\<lambda>i. \<not> reports_failure (replies_done i)) [0 ..< 60]"
    using replies_done_ok by (simp add: list_all_iff maxPolls_def)
  ultimately show ?thesis by (simp add: upt replies_done_def del: upt_Suc)
qed

text \<open>
  A server that answers every poll with status 500: no reply is terminal, the ceiling is
  reached, the waits are of 2000 ms, and the error thrown is that of the last poll, not
  the timeout error.
\<close>

theorem pollTaskStatus_last_poll_error:
  "\<not> reports_success (replies_down 59)
   \<and> \<not> reports_failure (replies_down 59)
   \<and> polls (pollTaskStatus replies_down) = 60
   \<and> outcome (pollTaskStatus replies_down) =
       Inl (Error ''status query failed: 500 Internal Server Error'')
   \<and> outcome (pollTaskStatus replies_down) \<noteq> Inl timeout_error
   \<and> waits (pollTaskStatus replies_down) = replicate 59 2000"
proof -
  have no: "\<forall>j. 0 \<le> j \<and> j < maxPolls \<longrightarrow> (\<forall>r. try_poll (replies_down j) \<noteq> Inr (Some r))"
    by (simp add: try_poll_down)
  have w: "map (\<lambda>j. wait_after (replies_down j)) [0 ..< 59] = replicate 59 2000"
    by (simp add: wait_after_def try_poll_down map_replicate_const del: upt_Suc)
  have k: "\<not> reports_success (replies_down 59) \<and> \<not> reports_failure (replies_down 59)"
    by (simp add: reports_success_def reports_failure_def replies_down_def)
  from poll_from_exhausted [of 0 replies_down] no w
  have "polls (pollTaskStatus replies_down) = 60
      \<and> outcome (pollTaskStatus replies_down) =
          Inl (Error ''status query failed: 500 Internal Server Error'')
      \<and> waits (pollTaskStatus replies_down) = replicate 59 2000"
    by (simp add: pollTaskStatus_def maxPolls_def try_poll_down)
  with k show ?thesis by (simp add: timeout_error_def)
qed

text \<open>
  A poll that reports a failed task: the error thrown for it inside the \<^verbatim>\<open>try\<close> block is
  caught by the \<^verbatim>\<open>catch\<close> of the same iteration, which retries unless the iteration is
  the last. The loop therefore polls a failed task up to the ceiling before the error
  leaves the function.
\<close>

lemma pollTaskStatus_failure_report_retried:
  "reports_failure (replies_failed 0)
   \<and> polls (pollTaskStatus replies_failed) = 60
   \<and> outcome (pollTaskStatus replies_failed) = Inl (Error ''boom'')
   \<and> waits (pollTaskStatus replies_failed) = replicate 59 2000"
proof -
  have t: "\<And>i. try_poll (replies_failed i) = Inl (Error ''boom'')"
    by (simp add: try_poll_def replies_failed_def)
  have no: "\<forall>j. 0 \<le> j \<and> j < maxPolls \<longrightarrow> (\<forall>r. try_poll (replies_failed j) \<noteq> Inr (Some r))"
    by (simp add: t)
  have w: "map (\<lambda>j. wait_after (replies_failed j)) [0 ..< 59] = replicate 59 2000"
    by (simp add: wait_after_def t map_replicate_const del: upt_Suc)
  have k: "reports_failure (replies_failed 0)"
    by (simp add: reports_failure_def replies_failed_def)
  from poll_from_exhausted [of 0 replies_failed] no w
  have "polls (pollTaskStatus replies_failed) = 60
      \<and> outcome (pollTaskStatus replies_failed) = Inl (Error ''boom'')
      \<and> waits (pollTaskStatus replies_failed) = replicate 59 2000"
    by (simp add: pollTaskStatus_def maxPolls_def t)
  with k show ?thesis by simp
qed

end
